theory Spec2Isabelle
  imports Main "HOL-Library.Word"
begin

unbundle bit_operations_syntax

section \<open>JavaScript strings\<close>

text \<open>
  A JavaScript string is a sequence of UTF-16 code units. String literals of the source
  that are plain ASCII are written with \<open>lit\<close>; other code units are given by number.
\<close>

type_synonym jschar = "16 word"
type_synonym jsstring = "jschar list"
type_synonym byte = "8 word"

definition lit :: "string \<Rightarrow> jsstring" where
  "lit s = map of_char s"

abbreviation LBRACE :: jschar where "LBRACE \<equiv> 0x7B"
abbreviation RBRACE :: jschar where "RBRACE \<equiv> 0x7D"

text \<open>\<open>Array.prototype.join\<close> on strings that are already converted.\<close>

fun join :: "jsstring \<Rightarrow> jsstring list \<Rightarrow> jsstring" where
  "join sep [] = []"
| "join sep [x] = x"
| "join sep (x # y # ys) = x @ sep @ join sep (y # ys)"

text \<open>
  \<open>String.prototype.trim\<close> removes the code units of WhiteSpace and LineTerminator
  from both ends.
\<close>

definition js_whitespace :: "jschar \<Rightarrow> bool" where
  "js_whitespace c \<longleftrightarrow>
     c = 0x09 \<or> c = 0x0A \<or> c = 0x0B \<or> c = 0x0C \<or> c = 0x0D \<or> c = 0x20 \<or> c = 0xA0 \<or>
     c = 0x1680 \<or> (0x2000 \<le> c \<and> c \<le> 0x200A) \<or> c = 0x2028 \<or> c = 0x2029 \<or>
     c = 0x202F \<or> c = 0x205F \<or> c = 0x3000 \<or> c = 0xFEFF"

definition trim :: "jsstring \<Rightarrow> jsstring" where
  "trim s = rev (dropWhile js_whitespace (rev (dropWhile js_whitespace s)))"

section \<open>The regular expression \<open>/\{.*\}/s\<close>\<close>

text \<open>
  \<open>text.match(/\{.*\}/s)\<close> is modelled as the backtracking matcher runs it. With the
  \<open>s\<close> flag the dot matches every code unit. \<open>dotstar_rbrace\<close> is \<open>.*\}\<close> at a
  position: the star first takes the next code unit and tries the rest (greedy); only
  when that fails does it stop, and then the next code unit must be the closing brace.
  \<open>match_at\<close> is the whole pattern at a position, and \<open>regex_match\<close> tries the
  positions from left to right and gives the first match, which is \<open>jsonMatch[0]\<close>;
  \<open>None\<close> is the \<open>null\<close> of a failed match.
\<close>

fun dotstar_rbrace :: "jsstring \<Rightarrow> jsstring option" where
  "dotstar_rbrace [] = None"
| "dotstar_rbrace (c # cs) =
     (case dotstar_rbrace cs of
        Some m \<Rightarrow> Some (c # m)
      | None \<Rightarrow> if c = RBRACE then Some [c] else None)"

fun match_at :: "jsstring \<Rightarrow> jsstring option" where
  "match_at [] = None"
| "match_at (c # cs) =
     (if c = LBRACE then
        (case dotstar_rbrace cs of None \<Rightarrow> None | Some m \<Rightarrow> Some (c # m))
      else None)"

fun regex_match :: "jsstring \<Rightarrow> jsstring option" where
  "regex_match [] = None"
| "regex_match (c # cs) =
     (case match_at (c # cs) of
        Some m \<Rightarrow> Some m
      | None \<Rightarrow> regex_match cs)"

section \<open>JSON values and \<open>JSON.parse\<close>\<close>

text \<open>
  The values \<open>JSON.parse\<close> and \<open>response.json()\<close> produce. A number is kept as the
  exact decimal it was written as: \<open>JNumber m e\<close> is \<open>m * 10 ^ e\<close>. An object keeps its
  members in source order, duplicates included; a property read takes the last one, as
  the parser's repeated definition of a property does.
\<close>

datatype json =
    JNull
  | JBool bool
  | JNumber int int
  | JString jsstring
  | JArray "json list"
  | JObject "(jsstring \<times> json) list"

definition json_ws :: "jschar \<Rightarrow> bool" where
  "json_ws c \<longleftrightarrow> c = 0x20 \<or> c = 0x09 \<or> c = 0x0A \<or> c = 0x0D"

definition skip_ws :: "jsstring \<Rightarrow> jsstring" where
  "skip_ws s = dropWhile json_ws s"

definition is_digit :: "jschar \<Rightarrow> bool" where
  "is_digit c \<longleftrightarrow> 0x30 \<le> c \<and> c \<le> 0x39"

definition hex_val :: "jschar \<Rightarrow> nat option" where
  "hex_val c =
     (if 0x30 \<le> c \<and> c \<le> 0x39 then Some (unat c - 0x30)
      else if 0x41 \<le> c \<and> c \<le> 0x46 then Some (unat c - 0x41 + 10)
      else if 0x61 \<le> c \<and> c \<le> 0x66 then Some (unat c - 0x61 + 10)
      else None)"

definition hex4 :: "jschar \<Rightarrow> jschar \<Rightarrow> jschar \<Rightarrow> jschar \<Rightarrow> jschar option" where
  "hex4 a b c d =
     (case (hex_val a, hex_val b, hex_val c, hex_val d) of
        (Some x, Some y, Some z, Some w) \<Rightarrow> Some (of_nat (((x * 16 + y) * 16 + z) * 16 + w))
      | _ \<Rightarrow> None)"

text \<open>The two-character escapes of a JSON string: the quote, the backslash, the slash,
  and \<open>b f n r t\<close>.\<close>

definition simple_escape :: "jschar \<Rightarrow> jschar option" where
  "simple_escape e =
     (if e = 0x22 then Some 0x22
      else if e = 0x5C then Some 0x5C
      else if e = 0x2F then Some 0x2F
      else if e = 0x62 then Some 0x08
      else if e = 0x66 then Some 0x0C
      else if e = 0x6E then Some 0x0A
      else if e = 0x72 then Some 0x0D
      else if e = 0x74 then Some 0x09
      else None)"

text \<open>The rest of a string after its opening quote: the decoded code units and what
  follows the closing quote. Control characters below U+0020 are not allowed raw.\<close>

fun scan_string :: "jsstring \<Rightarrow> (jsstring \<times> jsstring) option" where
  "scan_string [] = None"
| "scan_string (c # cs) =
     (if c = 0x22 then Some ([], cs)
      else if c = 0x5C then
        (case cs of
           [] \<Rightarrow> None
         | e # es \<Rightarrow>
             if e = 0x75 then
               (case es of
                  h1 # h2 # h3 # h4 # rest \<Rightarrow>
                    (case hex4 h1 h2 h3 h4 of
                       None \<Rightarrow> None
                     | Some u \<Rightarrow>
                         (case scan_string rest of
                            None \<Rightarrow> None
                          | Some (str, r) \<Rightarrow> Some (u # str, r)))
                | _ \<Rightarrow> None)
             else
               (case simple_escape e of
                  None \<Rightarrow> None
                | Some x \<Rightarrow>
                    (case scan_string es of
                       None \<Rightarrow> None
                     | Some (str, r) \<Rightarrow> Some (x # str, r))))
      else if c < 0x20 then None
      else
        (case scan_string cs of
           None \<Rightarrow> None
         | Some (str, r) \<Rightarrow> Some (c # str, r)))"

definition digits_val :: "jsstring \<Rightarrow> nat" where
  "digits_val ds = foldl (\<lambda>acc c. 10 * acc + (unat c - 0x30)) 0 ds"

definition scan_sign :: "jsstring \<Rightarrow> bool \<times> jsstring" where
  "scan_sign s =
     (case s of
        [] \<Rightarrow> (False, s)
      | c # cs \<Rightarrow> if c = 0x2D then (True, cs) else (False, s))"

definition scan_fraction :: "jsstring \<Rightarrow> (jsstring \<times> jsstring) option" where
  "scan_fraction s =
     (case s of
        [] \<Rightarrow> Some ([], s)
      | c # cs \<Rightarrow>
          if c = 0x2E then
            (if takeWhile is_digit cs = [] then None
             else Some (takeWhile is_digit cs, dropWhile is_digit cs))
          else Some ([], s))"

definition scan_exponent :: "jsstring \<Rightarrow> (int \<times> jsstring) option" where
  "scan_exponent s =
     (case s of
        [] \<Rightarrow> Some (0, s)
      | c # cs \<Rightarrow>
          if c = 0x65 \<or> c = 0x45 then
            (let (neg, ds) =
                   (case cs of
                      [] \<Rightarrow> (False, cs)
                    | d # r \<Rightarrow>
                        if d = 0x2D then (True, r)
                        else if d = 0x2B then (False, r)
                        else (False, cs))
             in if takeWhile is_digit ds = [] then None
                else Some ((if neg then - int (digits_val (takeWhile is_digit ds))
                            else int (digits_val (takeWhile is_digit ds))),
                           dropWhile is_digit ds))
          else Some (0, s))"

text \<open>A JSON number: an optional minus, an integer part without a leading zero, an
  optional fraction, an optional exponent. The result is the mantissa, the decimal
  exponent and the rest of the input.\<close>

definition scan_number :: "jsstring \<Rightarrow> (int \<times> int \<times> jsstring) option" where
  "scan_number s =
     (let (neg, s1) = scan_sign s;
          ip = takeWhile is_digit s1
      in if ip = [] \<or> (1 < length ip \<and> hd ip = 0x30) then None
         else
           (case scan_fraction (dropWhile is_digit s1) of
              None \<Rightarrow> None
            | Some (fp, s2) \<Rightarrow>
                (case scan_exponent s2 of
                   None \<Rightarrow> None
                 | Some (ex, s3) \<Rightarrow>
                     Some ((if neg then - int (digits_val (ip @ fp))
                            else int (digits_val (ip @ fp))),
                           ex - int (length fp), s3))))"

lemma scan_string_shorter: "scan_string s = Some (str, r) \<Longrightarrow> length r < length s"
  by (induction s arbitrary: str r rule: scan_string.induct)
     (fastforce split: if_splits list.splits option.splits)+

text \<open>
  The recursive-descent parser: a value, the elements of a non-empty array after its
  bracket, the members of a non-empty object after its brace. Each gives the parsed part
  and the rest of the input. The tests \<open>length r < length s\<close> are there for the
  termination proof only: \<open>parse_value_shorter\<close> below shows they always hold, and
  \<open>parse_elements_unguarded\<close> and \<open>parse_members_unguarded\<close> are the equations
  without them.
\<close>

function parse_value :: "jsstring \<Rightarrow> (json \<times> jsstring) option"
  and parse_elements :: "jsstring \<Rightarrow> (json list \<times> jsstring) option"
  and parse_members :: "jsstring \<Rightarrow> ((jsstring \<times> json) list \<times> jsstring) option"
where
  "parse_value s =
     (case skip_ws s of
        [] \<Rightarrow> None
      | c # cs \<Rightarrow>
          if c = LBRACE then
            (case skip_ws cs of
               [] \<Rightarrow> None
             | d # ds \<Rightarrow>
                 if d = RBRACE then Some (JObject [], ds)
                 else (case parse_members (d # ds) of
                         None \<Rightarrow> None
                       | Some (kvs, r) \<Rightarrow> Some (JObject kvs, r)))
          else if c = 0x5B then
            (case skip_ws cs of
               [] \<Rightarrow> None
             | d # ds \<Rightarrow>
                 if d = 0x5D then Some (JArray [], ds)
                 else (case parse_elements (d # ds) of
                         None \<Rightarrow> None
                       | Some (vs, r) \<Rightarrow> Some (JArray vs, r)))
          else if c = 0x22 then
            (case scan_string cs of
               None \<Rightarrow> None
             | Some (str, r) \<Rightarrow> Some (JString str, r))
          else if c = 0x2D \<or> is_digit c then
            (case scan_number (c # cs) of
               None \<Rightarrow> None
             | Some (m, e, r) \<Rightarrow> Some (JNumber m e, r))
          else if take 4 (c # cs) = lit ''true'' then Some (JBool True, drop 4 (c # cs))
          else if take 5 (c # cs) = lit ''false'' then Some (JBool False, drop 5 (c # cs))
          else if take 4 (c # cs) = lit ''null'' then Some (JNull, drop 4 (c # cs))
          else None)"
| "parse_elements s =
     (case parse_value s of
        None \<Rightarrow> None
      | Some (v, r) \<Rightarrow>
          if length r < length s then
            (case skip_ws r of
               [] \<Rightarrow> None
             | c # cs \<Rightarrow>
                 if c = 0x2C then
                   (case parse_elements cs of
                      None \<Rightarrow> None
                    | Some (vs, r') \<Rightarrow> Some (v # vs, r'))
                 else if c = 0x5D then Some ([v], cs)
                 else None)
          else None)"
| "parse_members s =
     (case skip_ws s of
        [] \<Rightarrow> None
      | c # cs \<Rightarrow>
          if c = 0x22 then
            (case scan_string cs of
               None \<Rightarrow> None
             | Some (k, r) \<Rightarrow>
                 (case skip_ws r of
                    [] \<Rightarrow> None
                  | d # ds \<Rightarrow>
                      if d = 0x3A then
                        (case parse_value ds of
                           None \<Rightarrow> None
                         | Some (v, r') \<Rightarrow>
                             if length r' < length ds then
                               (case skip_ws r' of
                                  [] \<Rightarrow> None
                                | e # es \<Rightarrow>
                                    if e = 0x2C then
                                      (case parse_members es of
                                         None \<Rightarrow> None
                                       | Some (kvs, r'') \<Rightarrow> Some ((k, v) # kvs, r''))
                                    else if e = RBRACE then Some ([(k, v)], es)
                                    else None)
                             else None)
                      else None))
          else None)"
  by pat_completeness auto
termination
proof (relation "measure (\<lambda>x. case x of
          Inl s \<Rightarrow> 2 * length s
        | Inr (Inl s) \<Rightarrow> 2 * length s + 1
        | Inr (Inr s) \<Rightarrow> 2 * length s + 1)", goal_cases)
  case 1
  show ?case by simp
next
  case (2 s c cs d ds)
  have "length (skip_ws cs) \<le> length cs" "length (skip_ws s) \<le> length s"
    by (simp_all add: skip_ws_def length_dropWhile_le)
  with 2 show ?case by simp
next
  case (3 s c cs d ds)
  have "length (skip_ws cs) \<le> length cs" "length (skip_ws s) \<le> length s"
    by (simp_all add: skip_ws_def length_dropWhile_le)
  with 3 show ?case by simp
next
  case (4 s)
  show ?case by simp
next
  case (5 s x v r c cs)
  have "length (skip_ws r) \<le> length r"
    by (simp add: skip_ws_def length_dropWhile_le)
  with 5 show ?case by simp
next
  case (6 s c cs x k r d ds)
  have "length (skip_ws r) \<le> length r" "length (skip_ws s) \<le> length s"
    by (simp_all add: skip_ws_def length_dropWhile_le)
  moreover have "length r < length cs"
    using 6 by (auto dest: scan_string_shorter)
  ultimately show ?case using 6 by simp
next
  case (7 s c cs x k r d ds y v r' e es)
  have "length (skip_ws r) \<le> length r" "length (skip_ws s) \<le> length s"
    "length (skip_ws r') \<le> length r'"
    by (simp_all add: skip_ws_def length_dropWhile_le)
  moreover have "length r < length cs"
    using 7 by (auto dest: scan_string_shorter)
  ultimately show ?case using 7 by simp
qed

declare parse_value.simps [simp del] parse_elements.simps [simp del] parse_members.simps [simp del]

text \<open>\<open>JSON.parse\<close>: one value, with white space allowed around it and nothing else.
  \<open>None\<close> is the SyntaxError it throws.\<close>

definition JSON_parse :: "jsstring \<Rightarrow> json option" where
  "JSON_parse s =
     (case parse_value s of
        None \<Rightarrow> None
      | Some (v, r) \<Rightarrow> if skip_ws r = [] then Some v else None)"

section \<open>JavaScript values: property reads, truthiness, conversion to string\<close>

text \<open>
  The errors a \<open>try\<close> block of the program can meet: an \<open>Error\<close> the program
  constructs itself, with its message; a TypeError or SyntaxError raised by the engine;
  and the reason a call to the outside world rejects with.
\<close>

datatype js_error =
    Error jsstring
  | TypeError
  | SyntaxError
  | Rejection jsstring

text \<open>The property names the program reads from parsed JSON. None of them is a
  built-in property of an array, a string, a number or a boolean.\<close>

datatype pname = Choices | Message | Content | Email | Subject | Body

fun key_of :: "pname \<Rightarrow> jsstring" where
  "key_of Choices = lit ''choices''"
| "key_of Message = lit ''message''"
| "key_of Content = lit ''content''"
| "key_of Email = lit ''email''"
| "key_of Subject = lit ''subject''"
| "key_of Body = lit ''body''"

text \<open>\<open>v.p\<close>: \<open>None\<close> is \<open>undefined\<close>; reading a property of \<open>null\<close> throws.\<close>

fun get_prop :: "json \<Rightarrow> pname \<Rightarrow> js_error + json option" where
  "get_prop JNull p = Inl TypeError"
| "get_prop (JObject kvs) p = Inr (map_of (rev kvs) (key_of p))"
| "get_prop (JBool b) p = Inr None"
| "get_prop (JNumber m e) p = Inr None"
| "get_prop (JString s) p = Inr None"
| "get_prop (JArray xs) p = Inr None"

text \<open>\<open>v[0]\<close>: the first element of an array, the first code unit of a string, the
  property \<open>"0"\<close> of an object.\<close>

fun get_index0 :: "json \<Rightarrow> js_error + json option" where
  "get_index0 JNull = Inl TypeError"
| "get_index0 (JObject kvs) = Inr (map_of (rev kvs) (lit ''0''))"
| "get_index0 (JArray xs) = Inr (case xs of [] \<Rightarrow> None | x # _ \<Rightarrow> Some x)"
| "get_index0 (JString s) = Inr (case s of [] \<Rightarrow> None | c # _ \<Rightarrow> Some (JString [c]))"
| "get_index0 (JBool b) = Inr None"
| "get_index0 (JNumber m e) = Inr None"

text \<open>Optional chaining \<open>v?.\<close>: \<open>undefined\<close> when \<open>v\<close> is \<open>undefined\<close> or \<open>null\<close>.\<close>

definition opt_chain :: "json option \<Rightarrow> (json \<Rightarrow> js_error + json option) \<Rightarrow> js_error + json option" where
  "opt_chain v f = (case v of None \<Rightarrow> Inr None | Some JNull \<Rightarrow> Inr None | Some x \<Rightarrow> f x)"

text \<open>\<open>v?.trim()\<close>: only a string has a callable \<open>trim\<close>; on any other value that is
  neither \<open>undefined\<close> nor \<open>null\<close> the call throws a TypeError.\<close>

fun opt_trim :: "json option \<Rightarrow> js_error + jsstring option" where
  "opt_trim None = Inr None"
| "opt_trim (Some JNull) = Inr None"
| "opt_trim (Some (JString s)) = Inr (Some (trim s))"
| "opt_trim (Some (JBool b)) = Inl TypeError"
| "opt_trim (Some (JNumber m e)) = Inl TypeError"
| "opt_trim (Some (JArray xs)) = Inl TypeError"
| "opt_trim (Some (JObject kvs)) = Inl TypeError"

text \<open>
  The Number value of the decimal \<open>m * 10 ^ e\<close> is zero when \<open>m\<close> is, and when the
  decimal is so small that it rounds to zero: at most \<open>2 ^ -1075\<close>, half the least
  positive double, the tie going to the even neighbour zero.
\<close>

definition number_is_zero :: "int \<Rightarrow> int \<Rightarrow> bool" where
  "number_is_zero m e \<longleftrightarrow> m = 0 \<or> (e < 0 \<and> \<bar>m\<bar> * 2 ^ 1075 \<le> 10 ^ nat (- e))"

text \<open>\<open>!v\<close> for a value read from parsed JSON: \<open>undefined\<close>, \<open>null\<close>, \<open>false\<close>,
  zero and the empty string are falsy; every array and object is truthy.\<close>

fun falsy :: "json option \<Rightarrow> bool" where
  "falsy None = True"
| "falsy (Some JNull) = True"
| "falsy (Some (JBool b)) = (\<not> b)"
| "falsy (Some (JNumber m e)) = number_is_zero m e"
| "falsy (Some (JString s)) = (s = [])"
| "falsy (Some (JArray xs)) = False"
| "falsy (Some (JObject kvs)) = False"

text \<open>\<open>!s\<close> for a string that may be \<open>undefined\<close> or \<open>null\<close>.\<close>

definition falsy_str :: "jsstring option \<Rightarrow> bool" where
  "falsy_str s \<longleftrightarrow> s = None \<or> s = Some []"

text \<open>A string, or \<open>undefined\<close>, inside a template literal.\<close>

definition template :: "jsstring option \<Rightarrow> jsstring" where
  "template s = (case s of None \<Rightarrow> lit ''undefined'' | Some x \<Rightarrow> x)"

text \<open>
  ToString of a JSON value, as a template literal applies it; \<open>Inl\<close> is a throw. The
  decimal text of a Number is floating-point formatting and is taken as the parameter
  \<open>nts\<close>. An array is its elements joined with commas, \<open>null\<close> elements as empty
  strings. An object is converted by the method found under \<open>toString\<close>: the one of
  \<open>Object.prototype\<close> gives \<open>[object Object]\<close>; an own member of that name hides it,
  and as no value parsed from JSON is callable, and \<open>valueOf\<close> gives no primitive
  either, the conversion then throws a TypeError.
\<close>

fun ToString :: "(int \<Rightarrow> int \<Rightarrow> jsstring) \<Rightarrow> json \<Rightarrow> js_error + jsstring"
  and join_elements :: "(int \<Rightarrow> int \<Rightarrow> jsstring) \<Rightarrow> json list \<Rightarrow> js_error + jsstring list"
where
  "ToString nts JNull = Inr (lit ''null'')"
| "ToString nts (JBool b) = Inr (if b then lit ''true'' else lit ''false'')"
| "ToString nts (JNumber m e) = Inr (nts m e)"
| "ToString nts (JString s) = Inr s"
| "ToString nts (JArray xs) =
     (case join_elements nts xs of
        Inl e \<Rightarrow> Inl e
      | Inr ss \<Rightarrow> Inr (join [0x2C] ss))"
| "ToString nts (JObject kvs) =
     (if lit ''toString'' \<in> set (map fst kvs) then Inl TypeError
      else Inr (lit ''[object Object]''))"
| "join_elements nts [] = Inr []"
| "join_elements nts (x # xs) =
     (case (if x = JNull then Inr [] else ToString nts x) of
        Inl e \<Rightarrow> Inl e
      | Inr s \<Rightarrow>
          (case join_elements nts xs of
             Inl e \<Rightarrow> Inl e
           | Inr ss \<Rightarrow> Inr (s # ss)))"

text \<open>An element of an array under \<open>Array.prototype.join\<close>.\<close>

definition join_element :: "(int \<Rightarrow> int \<Rightarrow> jsstring) \<Rightarrow> json \<Rightarrow> js_error + jsstring" where
  "join_element nts x = (if x = JNull then Inr [] else ToString nts x)"

section \<open>\<open>Buffer.from(email).toString('base64')\<close> and the two replacements\<close>

definition is_high_surrogate :: "jschar \<Rightarrow> bool" where
  "is_high_surrogate c \<longleftrightarrow> 0xD800 \<le> c \<and> c \<le> 0xDBFF"

definition is_low_surrogate :: "jschar \<Rightarrow> bool" where
  "is_low_surrogate c \<longleftrightarrow> 0xDC00 \<le> c \<and> c \<le> 0xDFFF"

definition code_point :: "jschar \<Rightarrow> jschar \<Rightarrow> 32 word" where
  "code_point hi lo = 0x10000 + push_bit 10 (ucast (hi AND 0x3FF)) + ucast (lo AND 0x3FF)"

text \<open>\<open>Buffer.from(string)\<close>: the UTF-8 bytes of the string; a surrogate without its
  partner becomes U+FFFD.\<close>

fun utf8_encode :: "jsstring \<Rightarrow> byte list" where
  "utf8_encode [] = []"
| "utf8_encode (c # cs) =
     (if c < 0x80 then ucast c # utf8_encode cs
      else if c < 0x800 then
        [0xC0 OR ucast (drop_bit 6 c), 0x80 OR ucast (c AND 0x3F)] @ utf8_encode cs
      else if is_high_surrogate c then
        (case cs of
           [] \<Rightarrow> [0xEF, 0xBF, 0xBD]
         | d # ds \<Rightarrow>
             if is_low_surrogate d then
               [0xF0 OR ucast (drop_bit 18 (code_point c d)),
                0x80 OR ucast (drop_bit 12 (code_point c d) AND 0x3F),
                0x80 OR ucast (drop_bit 6 (code_point c d) AND 0x3F),
                0x80 OR ucast (code_point c d AND 0x3F)] @ utf8_encode ds
             else [0xEF, 0xBF, 0xBD] @ utf8_encode cs)
      else if is_low_surrogate c then [0xEF, 0xBF, 0xBD] @ utf8_encode cs
      else
        [0xE0 OR ucast (drop_bit 12 c), 0x80 OR ucast (drop_bit 6 c AND 0x3F),
         0x80 OR ucast (c AND 0x3F)] @ utf8_encode cs)"

definition b64_alphabet :: jsstring where
  "b64_alphabet = lit ''ABCDEFGHIJKLMNOPQRSTUVWXYZabcdefghijklmnopqrstuvwxyz0123456789+/''"

definition b64_char :: "nat \<Rightarrow> jschar" where
  "b64_char n = b64_alphabet ! n"

text \<open>Standard base64 with padding: the 24 bits of three bytes are cut into four groups
  of 6 bits, each the index of a character; a last group of one or two bytes is filled
  with zero bits and padded with \<open>=\<close>. Every index is below 64.\<close>

fun base64 :: "byte list \<Rightarrow> jsstring" where
  "base64 [] = []"
| "base64 [a] =
     [b64_char (unat a div 4), b64_char (unat a mod 4 * 16), 0x3D, 0x3D]"
| "base64 [a, b] =
     [b64_char (unat a div 4), b64_char (unat a mod 4 * 16 + unat b div 16),
      b64_char (unat b mod 16 * 4), 0x3D]"
| "base64 (a # b # c # rest) =
     [b64_char (unat a div 4), b64_char (unat a mod 4 * 16 + unat b div 16),
      b64_char (unat b mod 16 * 4 + unat c div 64), b64_char (unat c mod 64)] @ base64 rest"

text \<open>\<open>.replace(/\+/g, '-')\<close> and \<open>.replace(/\//g, '_')\<close>: every occurrence.\<close>

definition replace_all :: "jschar \<Rightarrow> jschar \<Rightarrow> jsstring \<Rightarrow> jsstring" where
  "replace_all x y s = map (\<lambda>c. if c = x then y else c) s"

text \<open>\<open>.replace(/=+$/, '')\<close>: the search goes from the left for the first position
  from which only \<open>=\<close> follows up to the end of the string, and cuts there.\<close>

fun strip_padding :: "jsstring \<Rightarrow> jsstring" where
  "strip_padding [] = []"
| "strip_padding (c # cs) =
     (if c = 0x3D \<and> list_all (\<lambda>d. d = 0x3D) cs then [] else c # strip_padding cs)"

definition encode_message :: "jsstring \<Rightarrow> jsstring" where
  "encode_message email =
     strip_padding (replace_all 0x2F 0x5F (replace_all 0x2B 0x2D (base64 (utf8_encode email))))"

section \<open>The process: configuration, the outside world, observable events\<close>

text \<open>The environment variables the script reads into its constants; \<open>None\<close> is a
  variable that is not set.\<close>

record config =
  telegramToken :: "jsstring option"
  openaiApiKey :: "jsstring option"
  CLIENT_ID :: "jsstring option"
  CLIENT_SECRET :: "jsstring option"
  GOOGLE_REDIRECT_URI :: "jsstring option"
  userEmail :: "jsstring option"
  refreshToken :: "jsstring option"

text \<open>The tokens of the OAuth2 client: what \<open>getToken\<close> resolves to and what
  \<open>oAuth2Client.credentials\<close> holds.\<close>

record tokens =
  access_token :: "jsstring option"
  refresh_token :: "jsstring option"

record http_request =
  url :: jsstring
  http_method :: jsstring
  headers :: "(jsstring \<times> jsstring) list"
  request_body :: json

datatype gmail_message = GmailMessage (message_id: jsstring)

text \<open>
  What the outside world answers while one chat message is handled. \<open>Inl\<close> is a
  promise that rejects. \<open>fetch\<close> answers the request with a response whose
  \<open>json()\<close> again resolves or rejects; \<open>getAccessToken\<close> resolves to the \<open>token\<close>
  field of its response; \<open>messages_send\<close> takes \<open>userId\<close> and \<open>raw\<close> and resolves to
  \<open>res.data\<close>.
\<close>

record world =
  fetch :: "http_request \<Rightarrow> js_error + (js_error + json)"
  getAccessToken :: "js_error + jsstring option"
  messages_send :: "jsstring \<Rightarrow> jsstring \<Rightarrow> js_error + gmail_message"

datatype logarg =
    LString jsstring
  | LUndefined
  | LError js_error
  | LMessageOf js_error
  | LAuthUrl
  | LTokens tokens

datatype event =
    ConsoleLog "logarg list"
  | ConsoleError "logarg list"
  | ProcessExit nat
  | ScheduleExit nat nat
  | Fetch http_request
  | GetAccessToken
  | MessagesSend jsstring jsstring
  | BotStartPolling
  | BotOnMessage
  | BotSendMessage int jsstring
  | GenerateAuthUrl
  | AppGet jsstring
  | AppListen nat
  | GetToken jsstring
  | SetCredentials tokens
  | ResSend jsstring

definition log_text :: "jsstring option \<Rightarrow> logarg" where
  "log_text s = (case s of None \<Rightarrow> LUndefined | Some x \<Rightarrow> LString x)"

section \<open>\<open>getEmailDataFromAI\<close>\<close>

record email_data =
  to :: json
  subject :: json
  body :: json

definition prompt_of :: "jsstring option \<Rightarrow> jsstring" where
  \<open>prompt_of message =
     lit ''\<newline>You are an email assistant. Analyze the following message and respond with a JSON object in this exact format:\<newline>{"email": "recipient@example.com", "subject": "email subject", "body": "email content"}\<newline>\<newline>Message to analyze: ''
     @ template message @ lit ''\<newline>''\<close>

definition completion_request :: "config \<Rightarrow> jsstring option \<Rightarrow> http_request" where
  "completion_request cfg message =
     \<lparr>url = lit ''https://openrouter.ai/api/v1/chat/completions'',
      http_method = lit ''POST'',
      headers =
        [(lit ''Authorization'', lit ''Bearer '' @ template (openaiApiKey cfg)),
         (lit ''Content-Type'', lit ''application/json'')],
      request_body =
        JObject
          [(lit ''model'', JString (lit ''deepseek/deepseek-r1-0528-qwen3-8b:free'')),
           (lit ''messages'',
            JArray
              [JObject
                 [(lit ''role'', JString (lit ''system'')),
                  (lit ''content'',
                   JString (lit ''You are a helpful AI that extracts email data as structured JSON.''))],
               JObject
                 [(lit ''role'', JString (lit ''user'')),
                  (lit ''content'', JString (prompt_of message))]]),
           (lit ''temperature'', JNumber 2 (- 1))]\<rparr>"

text \<open>\<open>data.choices?.[0]?.message?.content?.trim()\<close>\<close>

definition content_text :: "json \<Rightarrow> js_error + jsstring option" where
  "content_text data =
     (case get_prop data Choices of
        Inl e \<Rightarrow> Inl e
      | Inr choices \<Rightarrow>
          (case opt_chain choices get_index0 of
             Inl e \<Rightarrow> Inl e
           | Inr first \<Rightarrow>
               (case opt_chain first (\<lambda>x. get_prop x Message) of
                  Inl e \<Rightarrow> Inl e
                | Inr message \<Rightarrow>
                    (case opt_chain message (\<lambda>x. get_prop x Content) of
                       Inl e \<Rightarrow> Inl e
                     | Inr content \<Rightarrow> opt_trim content))))"

text \<open>The statements of the \<open>try\<close> block after \<open>text\<close> is there: the match, the
  parse, the test of the three fields, the returned object. \<open>Inl\<close> is a throw. The
  inner case distinction only names the three values: after the test none of them is
  \<open>undefined\<close>.\<close>

definition parse_email :: "jsstring \<Rightarrow> js_error + email_data" where
  "parse_email text' =
     (case regex_match text' of
        None \<Rightarrow> Inl (Error (lit ''No JSON found in output''))
      | Some jsonMatch \<Rightarrow>
          (case JSON_parse jsonMatch of
             None \<Rightarrow> Inl SyntaxError
           | Some parsed \<Rightarrow>
               (case (get_prop parsed Email, get_prop parsed Subject, get_prop parsed Body) of
                  (Inr e, Inr s, Inr b) \<Rightarrow>
                    if falsy e \<or> falsy s \<or> falsy b
                    then Inl (Error (lit ''Missing required fields in AI output''))
                    else
                      (case (e, s, b) of
                         (Some e', Some s', Some b') \<Rightarrow> Inr \<lparr>to = e', subject = s', body = b'\<rparr>
                       | _ \<Rightarrow> Inl (Error (lit ''Missing required fields in AI output'')))
                | _ \<Rightarrow> Inl TypeError)))"

text \<open>The \<open>try\<close> block: the request, \<open>response.json()\<close>, the text of the first
  choice, and the rest.\<close>

definition getEmailDataFromAI_try :: "config \<Rightarrow> world \<Rightarrow> jsstring option \<Rightarrow> js_error + email_data" where
  "getEmailDataFromAI_try cfg w message =
     (case fetch w (completion_request cfg message) of
        Inl e \<Rightarrow> Inl e
      | Inr response \<Rightarrow>
          (case response of
             Inl e \<Rightarrow> Inl e
           | Inr data \<Rightarrow>
               (case content_text data of
                  Inl e \<Rightarrow> Inl e
                | Inr text' \<Rightarrow>
                    (case text' of
                       None \<Rightarrow> Inl (Error (lit ''No response from model''))
                     | Some t \<Rightarrow>
                         if t = [] then Inl (Error (lit ''No response from model''))
                         else parse_email t))))"

text \<open>The function with its \<open>catch\<close>: every throw of the block is logged and becomes
  the return value \<open>null\<close>, here \<open>None\<close>. Every error of the block is an error
  object, so reading \<open>error.message\<close> in the handler does not throw itself. The outer
  sum is the function's own outcome: \<open>Inr\<close> a return, \<open>Inl\<close> an exception that
  leaves it.\<close>

definition getEmailDataFromAI ::
  "config \<Rightarrow> world \<Rightarrow> jsstring option \<Rightarrow> event list \<times> (js_error + email_data option)" where
  "getEmailDataFromAI cfg w message =
     (case getEmailDataFromAI_try cfg w message of
        Inr d \<Rightarrow> ([Fetch (completion_request cfg message)], Inr (Some d))
      | Inl error \<Rightarrow>
          ([Fetch (completion_request cfg message),
            ConsoleError [LString (lit ''AI parse error:''), LMessageOf error]],
           Inr None))"

section \<open>\<open>sendMail\<close>\<close>

text \<open>\<open>emailLines.join('\r\n')\<close>: the two template literals convert \<open>to\<close> and
  \<open>subject\<close>, the join converts \<open>body\<close>; a conversion that throws ends the
  \<open>try\<close> block.\<close>

definition build_email :: "(int \<Rightarrow> int \<Rightarrow> jsstring) \<Rightarrow> config \<Rightarrow> email_data \<Rightarrow> js_error + jsstring" where
  \<open>build_email nts cfg d =
     (case ToString nts (to d) of
        Inl e \<Rightarrow> Inl e
      | Inr to' \<Rightarrow>
          (case ToString nts (subject d) of
             Inl e \<Rightarrow> Inl e
           | Inr subject' \<Rightarrow>
               (case join_element nts (body d) of
                  Inl e \<Rightarrow> Inl e
                | Inr body' \<Rightarrow>
                    Inr (join [0x0D, 0x0A]
                           [lit ''From: "Email Bot" <'' @ template (userEmail cfg) @ lit ''>'',
                            lit ''To: '' @ to',
                            lit ''Subject: '' @ subject',
                            lit ''Content-Type: text/plain; charset="UTF-8"'',
                            [],
                            body']))))\<close>

text \<open>The \<open>try\<close> block of \<open>sendMail\<close> with the calls it makes, in order.\<close>

definition sendMail_try ::
  "(int \<Rightarrow> int \<Rightarrow> jsstring) \<Rightarrow> config \<Rightarrow> world \<Rightarrow> email_data \<Rightarrow> event list \<times> (js_error + gmail_message)" where
  "sendMail_try nts cfg w d =
     (case getAccessToken w of
        Inl e \<Rightarrow> ([GetAccessToken], Inl e)
      | Inr accessToken \<Rightarrow>
          if falsy_str accessToken
          then ([GetAccessToken], Inl (Error (lit ''Failed to get access token'')))
          else
            (case build_email nts cfg d of
               Inl e \<Rightarrow> ([GetAccessToken], Inl e)
             | Inr email \<Rightarrow>
                 (let encodedMessage = encode_message email
                  in case messages_send w (lit ''me'') encodedMessage of
                       Inl e \<Rightarrow> ([GetAccessToken, MessagesSend (lit ''me'') encodedMessage], Inl e)
                     | Inr data \<Rightarrow>
                         ([GetAccessToken, MessagesSend (lit ''me'') encodedMessage,
                           ConsoleLog [LString (lit ''Email sent! Message ID: '' @ message_id data)]],
                          Inr data))))"

text \<open>The function with its \<open>catch\<close>, which logs the error and throws it again.\<close>

definition sendMail ::
  "(int \<Rightarrow> int \<Rightarrow> jsstring) \<Rightarrow> config \<Rightarrow> world \<Rightarrow> email_data \<Rightarrow> event list \<times> (js_error + gmail_message)" where
  "sendMail nts cfg w d =
     (case sendMail_try nts cfg w d of
        (evs, Inr data) \<Rightarrow> (evs, Inr data)
      | (evs, Inl error) \<Rightarrow>
          (evs @ [ConsoleError [LString (lit ''Error sending email:''), LError error]], Inl error))"

section \<open>\<open>startTelegramBot\<close> and its message handler\<close>

record telegram_message =
  chat_id :: int
  msg_text :: "jsstring option"

definition extraction_failed_text :: jsstring where
  "extraction_failed_text = 0x274C # lit '' Could not extract email details. Try rephrasing.''"

definition send_failed_text :: jsstring where
  "send_failed_text = 0x274C # lit '' Failed to send email. Try again later.''"

definition sent_text :: "(int \<Rightarrow> int \<Rightarrow> jsstring) \<Rightarrow> email_data \<Rightarrow> js_error + jsstring" where
  "sent_text nts emailData =
     (case ToString nts (to emailData) of
        Inl e \<Rightarrow> Inl e
      | Inr to' \<Rightarrow> Inr (0x2705 # lit '' Email sent to '' @ to' @ lit '' successfully!''))"

text \<open>The \<open>async (msg) => ...\<close> handler of \<open>bot.on('message', ...)\<close>. The template
  literal of the confirmation is evaluated inside the \<open>try\<close>, so a throw of its
  conversion is caught like one of \<open>sendMail\<close>.\<close>

definition on_message ::
  "(int \<Rightarrow> int \<Rightarrow> jsstring) \<Rightarrow> config \<Rightarrow> world \<Rightarrow> telegram_message \<Rightarrow> event list \<times> (js_error + unit)" where
  "on_message nts cfg w msg =
     (let chatId = chat_id msg;
          text' = msg_text msg;
          received = ConsoleLog [LString (lit ''Received message:''), log_text text']
      in case getEmailDataFromAI cfg w text' of
           (evs, Inl e) \<Rightarrow> (received # evs, Inl e)
         | (evs, Inr None) \<Rightarrow>
             (received # evs @ [BotSendMessage chatId extraction_failed_text], Inr ())
         | (evs, Inr (Some emailData)) \<Rightarrow>
             (case sendMail nts cfg w emailData of
                (evs', Inr data) \<Rightarrow>
                  (case sent_text nts emailData of
                     Inr confirmation \<Rightarrow>
                       (received # evs @ evs' @ [BotSendMessage chatId confirmation], Inr ())
                   | Inl err \<Rightarrow>
                       (received # evs @ evs' @ [BotSendMessage chatId send_failed_text], Inr ()))
              | (evs', Inl err) \<Rightarrow>
                  (received # evs @ evs' @ [BotSendMessage chatId send_failed_text], Inr ())))"

definition startTelegramBot :: "event list" where
  "startTelegramBot =
     [BotStartPolling, BotOnMessage,
      ConsoleLog [LString ([0xD83E, 0xDD16] @ lit '' Telegram bot started and listening for messages.'')]]"

section \<open>\<open>main\<close> and the top of the script\<close>

text \<open>What the process listens to once the script has run: chat messages, the OAuth
  callback, or nothing because it has exited.\<close>

datatype mode = Exited | RunPipeline | RunConsentFlow

text \<open>The route handler of \<open>/oauth2callback\<close>, given \<open>req.query.code\<close> and what
  \<open>getToken\<close> answers.\<close>

definition oauth2callback :: "jsstring option \<Rightarrow> js_error + tokens \<Rightarrow> event list" where
  "oauth2callback code exchange =
     (if falsy_str code then [ResSend (lit ''No code received.'')]
      else
        (case exchange of
           Inl err \<Rightarrow>
             [GetToken (template code),
              ConsoleError [LString (lit ''Error retrieving access token:''), LError err],
              ResSend (lit ''Error retrieving access token.'')]
         | Inr toks \<Rightarrow>
             [GetToken (template code), SetCredentials toks,
              ConsoleLog [LString (0x2705 # lit '' Tokens acquired:''), LTokens toks]]
             @ (if falsy_str (refresh_token toks) then []
                else [ConsoleLog
                        [LString (lit ''Save this refresh token to your environment variables:''),
                         LString (template (refresh_token toks))]])
             @ [ResSend (lit ''Authorization successful! You can now return to the terminal and restart the bot.''),
                ScheduleExit 0 2000]))"

text \<open>\<open>main\<close>, given \<open>oAuth2Client.credentials\<close> as they are when it is called.\<close>

definition main :: "tokens \<Rightarrow> event list \<times> mode" where
  "main credentials =
     (if \<not> falsy_str (refresh_token credentials) then
        (ConsoleLog [LString (0x2705 # lit '' Refresh token available, starting Telegram bot...'')]
           # startTelegramBot,
         RunPipeline)
      else
        ([GenerateAuthUrl,
          ConsoleLog [LString (lit ''Visit this URL to authorize the app:\<newline>''), LAuthUrl],
          AppGet (lit ''/oauth2callback''),
          AppListen 3000,
          ConsoleLog [LString (lit ''OAuth server listening on http://localhost:3000'')]],
         RunConsentFlow))"

text \<open>The credentials after the top of the script: \<open>setCredentials\<close> is called only
  when the refresh token of the environment is truthy.\<close>

definition initial_credentials :: "config \<Rightarrow> tokens" where
  "initial_credentials cfg =
     (if \<not> falsy_str (refreshToken cfg)
      then \<lparr>access_token = None, refresh_token = refreshToken cfg\<rparr>
      else \<lparr>access_token = None, refresh_token = None\<rparr>)"

definition missing_config :: "config \<Rightarrow> bool" where
  "missing_config cfg \<longleftrightarrow>
     falsy_str (telegramToken cfg) \<or> falsy_str (openaiApiKey cfg) \<or> falsy_str (CLIENT_ID cfg) \<or>
     falsy_str (CLIENT_SECRET cfg) \<or> falsy_str (userEmail cfg)"

text \<open>The script from its first line to the call of \<open>main\<close>: the test of the
  configuration, the call of \<open>setCredentials\<close> when the refresh token of the
  environment is truthy, then \<open>main\<close>.\<close>

definition startup :: "config \<Rightarrow> event list \<times> mode" where
  "startup cfg =
     (if missing_config cfg then
        ([ConsoleError [LString (0x274C # lit '' Please set all required environment variables!'')],
          ProcessExit 1],
         Exited)
      else
        (case main (initial_credentials cfg) of
           (evs, m) \<Rightarrow>
             ((if \<not> falsy_str (refreshToken cfg)
               then [SetCredentials \<lparr>access_token = None, refresh_token = refreshToken cfg\<rparr>]
               else []) @ evs,
              m)))"

text \<open>What reaches the process while it lives: a chat message with the answers of the
  outside world while it is handled, or a request to the callback route.\<close>

datatype input =
    ChatMessage telegram_message world
  | CallbackRequest "jsstring option" "js_error + tokens"

text \<open>A chat message is handled only when the bot polls, a callback request only when
  the server listens.\<close>

fun react :: "(int \<Rightarrow> int \<Rightarrow> jsstring) \<Rightarrow> config \<Rightarrow> mode \<Rightarrow> input \<Rightarrow> event list" where
  "react nts cfg RunPipeline (ChatMessage msg w) = fst (on_message nts cfg w msg)"
| "react nts cfg RunConsentFlow (CallbackRequest code exchange) = oauth2callback code exchange"
| "react nts cfg m i = []"

text \<open>The process from the call of \<open>main\<close> on, over the inputs it receives.\<close>

definition run_main :: "(int \<Rightarrow> int \<Rightarrow> jsstring) \<Rightarrow> config \<Rightarrow> input list \<Rightarrow> event list" where
  "run_main nts cfg inputs =
     (case main (initial_credentials cfg) of
        (evs, m) \<Rightarrow> evs @ concat (map (react nts cfg m) inputs))"

definition run_process :: "(int \<Rightarrow> int \<Rightarrow> jsstring) \<Rightarrow> config \<Rightarrow> input list \<Rightarrow> event list" where
  "run_process nts cfg inputs =
     (case startup cfg of (evs, m) \<Rightarrow> evs @ concat (map (react nts cfg m) inputs))"

section \<open>Reading a trace of events\<close>

text \<open>The chat messages a trace sends, in order.\<close>

fun sent_messages :: "event list \<Rightarrow> (int \<times> jsstring) list" where
  "sent_messages [] = []"
| "sent_messages (BotSendMessage c t # es) = (c, t) # sent_messages es"
| "sent_messages (e # es) = sent_messages es"

text \<open>The events only \<open>sendMail\<close> produces: its first statement asks for the access
  token, so every call of it leaves \<open>GetAccessToken\<close> in the trace.\<close>

fun dispatch_event :: "event \<Rightarrow> bool" where
  "dispatch_event GetAccessToken = True"
| "dispatch_event (MessagesSend u r) = True"
| "dispatch_event e = False"

text \<open>The events of the consent flow and those of the message pipeline.\<close>

fun consent_event :: "event \<Rightarrow> bool" where
  "consent_event GenerateAuthUrl = True"
| "consent_event (AppGet r) = True"
| "consent_event (AppListen p) = True"
| "consent_event (GetToken c) = True"
| "consent_event (SetCredentials t) = True"
| "consent_event (ResSend t) = True"
| "consent_event (ScheduleExit c d) = True"
| "consent_event e = False"

fun pipeline_event :: "event \<Rightarrow> bool" where
  "pipeline_event BotStartPolling = True"
| "pipeline_event BotOnMessage = True"
| "pipeline_event (BotSendMessage c t) = True"
| "pipeline_event (Fetch r) = True"
| "pipeline_event GetAccessToken = True"
| "pipeline_event (MessagesSend u r) = True"
| "pipeline_event e = False"

section \<open>Example inputs\<close>

definition example_config :: config where
  "example_config =
     \<lparr>telegramToken = Some (lit ''123:abc''), openaiApiKey = Some (lit ''sk-or-1''),
      CLIENT_ID = Some (lit ''client''), CLIENT_SECRET = Some (lit ''secret''),
      GOOGLE_REDIRECT_URI = None, userEmail = Some (lit ''bot@example.com''),
      refreshToken = Some (lit ''1//refresh'')\<rparr>"

text \<open>A completion whose first choice has the message content \<open>c\<close>.\<close>

definition example_response :: "jsstring \<Rightarrow> json" where
  "example_response c =
     JObject
       [(lit ''id'', JString (lit ''gen-1'')),
        (lit ''choices'',
         JArray
           [JObject
              [(lit ''message'',
                JObject [(lit ''role'', JString (lit ''assistant'')), (lit ''content'', JString c)])]])]"

definition example_number_text :: "int \<Rightarrow> int \<Rightarrow> jsstring" where
  "example_number_text m e = lit ''0''"

text \<open>A world where every call succeeds and the model answers \<open>c\<close>, and one where the
  mail provider rejects the send.\<close>

definition example_world :: "jsstring \<Rightarrow> world" where
  "example_world c =
     \<lparr>fetch = (\<lambda>r. Inr (Inr (example_response c))),
      getAccessToken = Inr (Some (lit ''ya29.token'')),
      messages_send = (\<lambda>u r. Inr (GmailMessage (lit ''18c0ffee'')))\<rparr>"

definition failing_send_world :: "jsstring \<Rightarrow> world" where
  "failing_send_world c =
     \<lparr>fetch = (\<lambda>r. Inr (Inr (example_response c))),
      getAccessToken = Inr (Some (lit ''ya29.token'')),
      messages_send = (\<lambda>u r. Inl (Rejection (lit ''quota exceeded'')))\<rparr>"

text \<open>Two worlds where the access token is not obtained: the request rejects, or its
  response carries no token.\<close>

definition rejecting_token_world :: "jsstring \<Rightarrow> world" where
  "rejecting_token_world c =
     \<lparr>fetch = (\<lambda>r. Inr (Inr (example_response c))),
      getAccessToken = Inl (Rejection (lit ''invalid_grant'')),
      messages_send = (\<lambda>u r. Inr (GmailMessage (lit ''18c0ffee'')))\<rparr>"

definition no_token_world :: "jsstring \<Rightarrow> world" where
  "no_token_world c =
     \<lparr>fetch = (\<lambda>r. Inr (Inr (example_response c))),
      getAccessToken = Inr None,
      messages_send = (\<lambda>u r. Inr (GmailMessage (lit ''18c0ffee'')))\<rparr>"

definition example_message :: telegram_message where
  "example_message =
     \<lparr>chat_id = 42,
      msg_text = Some (lit ''send an email to bob@example.com saying the meeting moved to 3pm'')\<rparr>"

definition bob_json :: jsstring where
  \<open>bob_json = lit ''{"email":"bob@example.com","subject":"Meeting update","body":"The meeting moved to 3pm."}''\<close>

definition bob_email :: email_data where
  "bob_email =
     \<lparr>to = JString (lit ''bob@example.com''), subject = JString (lit ''Meeting update''),
      body = JString (lit ''The meeting moved to 3pm.'')\<rparr>"

text \<open>A command whose recipient is an object with a member \<open>toString\<close>, as the
  answer \<open>{"email":{"toString":"x"},...}\<close> gives it.\<close>

definition unprintable_email :: email_data where
  "unprintable_email =
     \<lparr>to = JObject [(lit ''toString'', JString (lit ''x''))],
      subject = JString (lit ''Meeting update''),
      body = JString (lit ''The meeting moved to 3pm.'')\<rparr>"

text \<open>The envelope of that command with the sender of \<open>example_config\<close>.\<close>

definition bob_envelope :: jsstring where
  \<open>bob_envelope =
     lit ''From: "Email Bot" <bot@example.com>'' @ [0x0D, 0x0A]
     @ lit ''To: bob@example.com'' @ [0x0D, 0x0A]
     @ lit ''Subject: Meeting update'' @ [0x0D, 0x0A]
     @ lit ''Content-Type: text/plain; charset="UTF-8"'' @ [0x0D, 0x0A]
     @ [0x0D, 0x0A]
     @ lit ''The meeting moved to 3pm.''\<close>

definition prose_answer :: jsstring where
  "prose_answer = lit ''Sorry, I could not find an address in that message.''"

definition wrapped_pre :: jsstring where
  "wrapped_pre = lit ''  Sure! Here is the JSON you asked for:\<newline>''"

definition wrapped_post :: jsstring where
  "wrapped_post = lit ''\<newline>Let me know if you need anything else.  ''"

definition braced_prose_answer :: jsstring where
  "braced_prose_answer = lit ''Here is the {JSON} you asked for: '' @ bob_json"

definition nested_pre :: jsstring where
  \<open>nested_pre = lit ''{"meta":''\<close>

definition nested_object :: jsstring where
  \<open>nested_object = lit ''{"k":"v"}''\<close>

definition nested_post :: jsstring where
  \<open>nested_post = lit '',"email":"bob@example.com","subject":"Meeting update","body":"The meeting moved to 3pm."}''\<close>

definition two_fragments :: jsstring where
  \<open>two_fragments = lit ''{"email":"bob@example.com"} and {"subject":"Meeting update","body":"The meeting moved to 3pm."}''\<close>

text \<open>The two parts of \<open>two_fragments\<close>: its first object and what follows it.\<close>

definition first_fragment :: jsstring where
  \<open>first_fragment = lit ''{"email":"bob@example.com"}''\<close>

definition later_fragment :: jsstring where
  \<open>later_fragment = lit '' and {"subject":"Meeting update","body":"The meeting moved to 3pm."}''\<close>

text \<open>Prose after the object with an opening brace that nothing closes.\<close>

definition lone_brace_post :: jsstring where
  "lone_brace_post = lit '' and then {''"

definition unvalidated_answer :: jsstring where
  \<open>unvalidated_answer = lit ''{"email":"tomorrow at noon","subject":"Lunch","body":"See you there."}''\<close>

definition nested_answer :: jsstring where
  "nested_answer = nested_pre @ nested_object @ nested_post"

definition example_inputs :: "input list" where
  "example_inputs =
     [ChatMessage example_message (example_world bob_json),
      CallbackRequest (Some (lit ''4/0AbCd''))
        (Inr \<lparr>access_token = Some (lit ''ya29.token''), refresh_token = Some (lit ''1//refresh'')\<rparr>),
      ChatMessage example_message (failing_send_world bob_json)]"

section \<open>The decoder of base64url\<close>

text \<open>
  The decoder is not part of the program: it is the receiving side the round-trip
  property speaks of, base64url without padding as the standard gives it. The alphabet
  is that of base64 with \<open>-\<close> and \<open>_\<close> for \<open>+\<close> and \<open>/\<close>; four characters give three
  bytes; a last group of two or three characters gives one or two bytes and its unused
  low bits must be zero; a last group of one character is not an encoding.
\<close>

definition b64url_alphabet :: jsstring where
  "b64url_alphabet = lit ''ABCDEFGHIJKLMNOPQRSTUVWXYZabcdefghijklmnopqrstuvwxyz0123456789-_''"

fun index_of :: "jschar \<Rightarrow> jsstring \<Rightarrow> nat option" where
  "index_of c [] = None"
| "index_of c (x # xs) =
     (if c = x then Some 0 else (case index_of c xs of None \<Rightarrow> None | Some i \<Rightarrow> Some (Suc i)))"

definition b64url_value :: "jschar \<Rightarrow> nat option" where
  "b64url_value c = index_of c b64url_alphabet"

fun base64url_decode :: "jsstring \<Rightarrow> byte list option" where
  "base64url_decode [] = Some []"
| "base64url_decode [p] = None"
| "base64url_decode [p, q] =
     (case (b64url_value p, b64url_value q) of
        (Some x, Some y) \<Rightarrow>
          if y mod 16 = 0 then Some [of_nat (x * 4 + y div 16)] else None
      | _ \<Rightarrow> None)"
| "base64url_decode [p, q, r] =
     (case (b64url_value p, b64url_value q, b64url_value r) of
        (Some x, Some y, Some z) \<Rightarrow>
          if z mod 4 = 0
          then Some [of_nat (x * 4 + y div 16), of_nat (y mod 16 * 16 + z div 4)]
          else None
      | _ \<Rightarrow> None)"
| "base64url_decode (p # q # r # t # rest) =
     (case (b64url_value p, b64url_value q, b64url_value r, b64url_value t) of
        (Some x, Some y, Some z, Some u) \<Rightarrow>
          (case base64url_decode rest of
             None \<Rightarrow> None
           | Some bs \<Rightarrow>
               Some (of_nat (x * 4 + y div 16) # of_nat (y mod 16 * 16 + z div 4)
                       # of_nat (z mod 4 * 64 + u) # bs))
      | _ \<Rightarrow> None)"

text \<open>The encoding \<open>encode_message\<close> is shown to compute: base64url without padding,
  written directly over the URL-safe alphabet. It is used in the proofs only.\<close>

fun b64url_unpadded :: "byte list \<Rightarrow> jsstring" where
  "b64url_unpadded [] = []"
| "b64url_unpadded [a] =
     [b64url_alphabet ! (unat a div 4), b64url_alphabet ! (unat a mod 4 * 16)]"
| "b64url_unpadded [a, b] =
     [b64url_alphabet ! (unat a div 4), b64url_alphabet ! (unat a mod 4 * 16 + unat b div 16),
      b64url_alphabet ! (unat b mod 16 * 4)]"
| "b64url_unpadded (a # b # c # rest) =
     [b64url_alphabet ! (unat a div 4), b64url_alphabet ! (unat a mod 4 * 16 + unat b div 16),
      b64url_alphabet ! (unat b mod 16 * 4 + unat c div 64), b64url_alphabet ! (unat c mod 64)]
     @ b64url_unpadded rest"

text \<open>What the two global replacements do to one character.\<close>

definition url_char :: "jschar \<Rightarrow> jschar" where
  "url_char c = (if (if c = 0x2B then 0x2D else c) = 0x2F then 0x5F else (if c = 0x2B then 0x2D else c))"

definition short_envelope :: jsstring where
  "short_envelope = lit ''To: bob@example.com'' @ [0x0D, 0x0A, 0x0D, 0x0A, 0x2705]"

section \<open>Facts about the model used by several properties\<close>

subsection \<open>Traces and outcomes of the functions\<close>

lemma getEmailDataFromAI_events:
  "fst (getEmailDataFromAI cfg w message) = [Fetch (completion_request cfg message)] \<or>
   (\<exists>e. fst (getEmailDataFromAI cfg w message) =
      [Fetch (completion_request cfg message), ConsoleError [LString (lit ''AI parse error:''), LMessageOf e]])"
  by (auto simp: getEmailDataFromAI_def split: sum.splits)

lemma getEmailDataFromAI_returns:
  "\<exists>r. snd (getEmailDataFromAI cfg w message) = Inr r"
  by (auto simp: getEmailDataFromAI_def split: sum.splits)

lemma sendMail_no_messages: "sent_messages (fst (sendMail nts cfg w d)) = []"
  by (auto simp: sendMail_def sendMail_try_def Let_def split: sum.splits prod.splits if_splits)

lemma sent_messages_append: "sent_messages (xs @ ys) = sent_messages xs @ sent_messages ys"
  by (induction xs rule: sent_messages.induct) auto

lemma extraction_no_messages: "sent_messages (fst (getEmailDataFromAI cfg w message)) = []"
  using getEmailDataFromAI_events [of cfg w message] by auto

lemma extraction_no_dispatch: "filter dispatch_event (fst (getEmailDataFromAI cfg w message)) = []"
  using getEmailDataFromAI_events [of cfg w message] by auto

lemma sendMail_outcome:
  "snd (sendMail nts cfg w d) =
     (case getAccessToken w of
        Inl e \<Rightarrow> Inl e
      | Inr tok \<Rightarrow>
          if falsy_str tok then Inl (Error (lit ''Failed to get access token''))
          else
            (case build_email nts cfg d of
               Inl e \<Rightarrow> Inl e
             | Inr email \<Rightarrow> messages_send w (lit ''me'') (encode_message email)))"
  by (auto simp: sendMail_def sendMail_try_def Let_def split: sum.splits)

lemma content_text_example: "content_text (example_response c) = Inr (Some (trim c))"
  by (simp add: content_text_def example_response_def opt_chain_def lit_def)

lemma trim_bob: "trim bob_json = bob_json"
  by (simp add: trim_def bob_json_def lit_def js_whitespace_def)

lemma bob_json_nonempty: "bob_json \<noteq> []"
  by (simp add: bob_json_def lit_def)

lemma parse_email_bob: "parse_email bob_json = Inr bob_email"
  by code_simp

lemma extract_bob_example:
  "getEmailDataFromAI example_config (example_world bob_json) message =
     ([Fetch (completion_request example_config message)], Inr (Some bob_email))"
  by (simp add: getEmailDataFromAI_def getEmailDataFromAI_try_def example_world_def
      content_text_example trim_bob parse_email_bob falsy_str_def template_def bob_json_nonempty)

lemma extract_bob_failing:
  "getEmailDataFromAI example_config (failing_send_world bob_json) message =
     ([Fetch (completion_request example_config message)], Inr (Some bob_email))"
  by (simp add: getEmailDataFromAI_def getEmailDataFromAI_try_def failing_send_world_def
      content_text_example trim_bob parse_email_bob falsy_str_def template_def bob_json_nonempty)

lemma extract_prose:
  "snd (getEmailDataFromAI example_config (example_world prose_answer) message) = Inr None"
proof -
  have "trim prose_answer = prose_answer"
    by (simp add: trim_def prose_answer_def lit_def js_whitespace_def)
  moreover have "regex_match prose_answer = None"
    by (simp add: prose_answer_def lit_def)
  ultimately show ?thesis
    by (simp add: getEmailDataFromAI_def getEmailDataFromAI_try_def example_world_def
      content_text_example falsy_str_def template_def parse_email_def prose_answer_def lit_def)
qed

subsection \<open>The match of the regular expression\<close>

lemma dotstar_rbrace_None: "dotstar_rbrace s = None \<longleftrightarrow> RBRACE \<notin> set s"
  by (induction s) (auto split: option.splits)

lemma dotstar_rbrace_last:
  "RBRACE \<notin> set post \<Longrightarrow> dotstar_rbrace (mid @ RBRACE # post) = Some (mid @ [RBRACE])"
proof (induction mid)
  case Nil
  then have "dotstar_rbrace post = None" by (simp add: dotstar_rbrace_None)
  then show ?case by simp
next
  case (Cons c mid)
  then show ?case by simp
qed

lemma dotstar_rbrace_Some:
  "dotstar_rbrace s = Some m \<Longrightarrow> \<exists>mid post. s = mid @ RBRACE # post \<and> RBRACE \<notin> set post \<and> m = mid @ [RBRACE]"
proof (induction s arbitrary: m)
  case Nil
  then show ?case by simp
next
  case (Cons c cs)
  show ?case
  proof (cases "dotstar_rbrace cs")
    case None
    with Cons.prems have "c = RBRACE" "m = [c]" by (auto split: if_splits)
    moreover from None have "RBRACE \<notin> set cs" by (simp add: dotstar_rbrace_None)
    ultimately show ?thesis by (intro exI [of _ "[]"] exI [of _ cs]) simp
  next
    case (Some m')
    with Cons.prems have m: "m = c # m'" by simp
    from Cons.IH [OF Some] obtain mid post
      where "cs = mid @ RBRACE # post" "RBRACE \<notin> set post" "m' = mid @ [RBRACE]" by blast
    with m show ?thesis by (intro exI [of _ "c # mid"] exI [of _ post]) simp
  qed
qed

lemma regex_match_span:
  assumes "LBRACE \<notin> set pre" and "RBRACE \<notin> set post"
  shows "regex_match (pre @ LBRACE # mid @ RBRACE # post) = Some (LBRACE # mid @ [RBRACE])"
  using assms(1)
proof (induction pre)
  case Nil
  show ?case using assms(2) by (simp add: dotstar_rbrace_last)
next
  case (Cons c pre)
  then show ?case by simp
qed

lemma regex_match_Some:
  "regex_match s = Some m \<Longrightarrow>
     \<exists>pre mid post. s = pre @ LBRACE # mid @ RBRACE # post \<and> LBRACE \<notin> set pre \<and>
        RBRACE \<notin> set post \<and> m = LBRACE # mid @ [RBRACE]"
proof (induction s)
  case Nil
  then show ?case by simp
next
  case (Cons c cs)
  show ?case
  proof (cases "match_at (c # cs)")
    case (Some m')
    with Cons.prems have mm: "m' = m" by simp
    from Some obtain d where c: "c = LBRACE" and d: "dotstar_rbrace cs = Some d" and m': "m' = c # d"
      by (auto split: if_splits option.splits)
    from dotstar_rbrace_Some [OF d] obtain mid post
      where "cs = mid @ RBRACE # post" "RBRACE \<notin> set post" "d = mid @ [RBRACE]" by blast
    with c m' mm show ?thesis
      by (intro exI [of _ "[]"] exI [of _ mid] exI [of _ post]) simp
  next
    case None
    with Cons.prems have r: "regex_match cs = Some m" by simp
    from Cons.IH [OF r] obtain pre mid post
      where p: "cs = pre @ LBRACE # mid @ RBRACE # post" "LBRACE \<notin> set pre"
        "RBRACE \<notin> set post" "m = LBRACE # mid @ [RBRACE]" by blast
    have "c \<noteq> LBRACE"
    proof
      assume c: "c = LBRACE"
      with None have "dotstar_rbrace cs = None" by (auto split: option.splits)
      then have "RBRACE \<notin> set cs" by (simp add: dotstar_rbrace_None)
      with p(1) show False by simp
    qed
    with p show ?thesis
      by (intro exI [of _ "c # pre"] exI [of _ mid] exI [of _ post]) simp
  qed
qed

lemma regex_match_iff:
  "regex_match s = Some m \<longleftrightarrow>
     (\<exists>pre mid post. s = pre @ LBRACE # mid @ RBRACE # post \<and> LBRACE \<notin> set pre \<and>
        RBRACE \<notin> set post \<and> m = LBRACE # mid @ [RBRACE])"
  using regex_match_Some regex_match_span by blast

lemma trim_around_braces:
  "trim (pre @ LBRACE # mid @ RBRACE # post) =
     dropWhile js_whitespace pre @ LBRACE # mid @ RBRACE # rev (dropWhile js_whitespace (rev post))"
proof -
  have l: "\<not> js_whitespace LBRACE" and r: "\<not> js_whitespace RBRACE"
    by (simp_all add: js_whitespace_def)
  have "dropWhile js_whitespace (pre @ LBRACE # mid @ RBRACE # post)
          = dropWhile js_whitespace pre @ LBRACE # mid @ RBRACE # post"
    using l by (simp add: dropWhile_append3)
  moreover have "rev (dropWhile js_whitespace pre @ LBRACE # mid @ RBRACE # post)
          = rev post @ RBRACE # rev (dropWhile js_whitespace pre @ LBRACE # mid)"
    by simp
  moreover have "dropWhile js_whitespace (rev post @ RBRACE # rev (dropWhile js_whitespace pre @ LBRACE # mid))
          = dropWhile js_whitespace (rev post) @ RBRACE # rev (dropWhile js_whitespace pre @ LBRACE # mid)"
    using r by (rule dropWhile_append3)
  ultimately show ?thesis
    by (simp add: trim_def)
qed

lemma regex_match_trim:
  assumes "LBRACE \<notin> set pre" and "RBRACE \<notin> set post"
  shows "regex_match (trim (pre @ LBRACE # mid @ RBRACE # post)) = Some (LBRACE # mid @ [RBRACE])"
proof -
  have "LBRACE \<notin> set (dropWhile js_whitespace pre)"
    using assms(1) set_dropWhileD by fastforce
  moreover have "RBRACE \<notin> set (rev (dropWhile js_whitespace (rev post)))"
    using assms(2) set_dropWhileD [of RBRACE js_whitespace "rev post"] by auto
  ultimately have "regex_match (dropWhile js_whitespace pre @ LBRACE # mid
       @ RBRACE # rev (dropWhile js_whitespace (rev post))) = Some (LBRACE # mid @ [RBRACE])"
    by (rule regex_match_span)
  then show ?thesis
    by (simp only: trim_around_braces)
qed

subsection \<open>The \<open>try\<close> block of \<open>getEmailDataFromAI\<close>\<close>

lemma JSON_parse_brace_object:
  assumes "JSON_parse (LBRACE # rest) = Some parsed"
  shows "\<exists>kvs. parsed = JObject kvs"
proof -
  have s: "skip_ws (LBRACE # rest) = LBRACE # rest"
    by (simp add: skip_ws_def json_ws_def)
  obtain r where p: "parse_value (LBRACE # rest) = Some (parsed, r)"
    using assms by (auto simp: JSON_parse_def split: option.splits if_splits)
  show ?thesis
    using p unfolding parse_value.simps [of "LBRACE # rest"] s
    by (auto split: list.splits if_splits option.splits)
qed

lemma regex_match_object:
  assumes "regex_match text' = Some m" and "JSON_parse m = Some parsed"
  shows "\<exists>kvs. parsed = JObject kvs"
proof -
  from regex_match_Some [OF assms(1)] obtain mid where "m = LBRACE # mid @ [RBRACE]" by blast
  with assms(2) show ?thesis using JSON_parse_brace_object by blast
qed

lemma parse_email_Inr_iff:
  "parse_email text' = Inr d \<longleftrightarrow>
     (\<exists>m kvs. regex_match text' = Some m \<and> JSON_parse m = Some (JObject kvs) \<and>
        map_of (rev kvs) (lit ''email'') = Some (to d) \<and>
        map_of (rev kvs) (lit ''subject'') = Some (subject d) \<and>
        map_of (rev kvs) (lit ''body'') = Some (body d) \<and>
        \<not> falsy (Some (to d)) \<and> \<not> falsy (Some (subject d)) \<and> \<not> falsy (Some (body d)))"
proof (cases "regex_match text'")
  case None
  then show ?thesis by (simp add: parse_email_def)
next
  case (Some m)
  show ?thesis
  proof (cases "JSON_parse m")
    case None
    with Some show ?thesis by (simp add: parse_email_def)
  next
    case (Some parsed)
    with regex_match_object [OF \<open>regex_match text' = Some m\<close>] obtain kvs
      where k: "parsed = JObject kvs" by blast
    show ?thesis
      using \<open>regex_match text' = Some m\<close> Some k
      by (cases d) (auto simp: parse_email_def split: option.splits)
  qed
qed

lemma parse_email_Inl_iff:
  "(\<exists>e. parse_email text' = Inl e) \<longleftrightarrow>
     regex_match text' = None \<or>
     (\<exists>m. regex_match text' = Some m \<and>
        (JSON_parse m = None \<or>
         (\<exists>kvs. JSON_parse m = Some (JObject kvs) \<and>
            (falsy (map_of (rev kvs) (lit ''email'')) \<or>
             falsy (map_of (rev kvs) (lit ''subject'')) \<or>
             falsy (map_of (rev kvs) (lit ''body''))))))"
proof (cases "regex_match text'")
  case None
  then show ?thesis by (simp add: parse_email_def)
next
  case (Some m)
  show ?thesis
  proof (cases "JSON_parse m")
    case None
    with Some show ?thesis by (simp add: parse_email_def)
  next
    case (Some parsed)
    with regex_match_object [OF \<open>regex_match text' = Some m\<close>] obtain kvs
      where k: "parsed = JObject kvs" by blast
    show ?thesis
      using \<open>regex_match text' = Some m\<close> Some k
      by (auto simp: parse_email_def split: option.splits)
  qed
qed

lemma getEmailDataFromAI_snd:
  "snd (getEmailDataFromAI cfg w message) =
     (case getEmailDataFromAI_try cfg w message of Inl e \<Rightarrow> Inr None | Inr d \<Rightarrow> Inr (Some d))"
  by (simp add: getEmailDataFromAI_def split: sum.splits)

lemma try_Inr_iff:
  "getEmailDataFromAI_try cfg w message = Inr d \<longleftrightarrow>
     (\<exists>data text'. fetch w (completion_request cfg message) = Inr (Inr data) \<and>
        content_text data = Inr (Some text') \<and> text' \<noteq> [] \<and> parse_email text' = Inr d)"
  by (auto simp: getEmailDataFromAI_try_def falsy_str_def template_def
      split: sum.splits option.splits)

lemma extract_content:
  assumes "fetch w (completion_request cfg message) = Inr (Inr data)"
    and "content_text data = Inr (Some text')" and "text' \<noteq> []"
  shows "snd (getEmailDataFromAI cfg w message) =
           (case parse_email text' of Inl e \<Rightarrow> Inr None | Inr d \<Rightarrow> Inr (Some d))"
  using assms by (simp add: getEmailDataFromAI_snd getEmailDataFromAI_try_def split: sum.splits)

subsection \<open>The examples, evaluated\<close>

lemma JSON_parse_bob:
  "JSON_parse bob_json =
     Some (JObject [(lit ''email'', JString (lit ''bob@example.com'')),
                    (lit ''subject'', JString (lit ''Meeting update'')),
                    (lit ''body'', JString (lit ''The meeting moved to 3pm.''))])"
  by code_simp

lemma extract_example:
  "snd (getEmailDataFromAI cfg (example_world c) message) =
     (if trim c = [] then Inr None
      else case parse_email (trim c) of Inl e \<Rightarrow> Inr None | Inr d \<Rightarrow> Inr (Some d))"
  by (simp add: getEmailDataFromAI_snd getEmailDataFromAI_try_def example_world_def
      content_text_example falsy_str_def template_def split: sum.splits)

lemma trim_braced: "trim braced_prose_answer = braced_prose_answer"
  by (simp add: trim_def braced_prose_answer_def bob_json_def lit_def js_whitespace_def)

lemma parse_email_braced: "parse_email braced_prose_answer = Inl SyntaxError"
  by code_simp

lemma trim_two_fragments: "trim two_fragments = two_fragments"
  by (simp add: trim_def two_fragments_def lit_def js_whitespace_def)

lemma two_fragments_parts: "two_fragments = first_fragment @ later_fragment"
  by (simp add: two_fragments_def first_fragment_def later_fragment_def lit_def)

lemma JSON_parse_first_fragment:
  "JSON_parse first_fragment = Some (JObject [(lit ''email'', JString (lit ''bob@example.com''))])"
  by code_simp

lemma trim_lone_brace: "trim (bob_json @ lone_brace_post) = bob_json @ lone_brace_post"
  by (simp add: trim_def bob_json_def lone_brace_post_def lit_def js_whitespace_def)

lemma parse_email_lone_brace: "parse_email (bob_json @ lone_brace_post) = Inr bob_email"
  by code_simp

lemma trim_nested: "trim nested_answer = nested_answer"
  by (simp add: trim_def nested_answer_def nested_pre_def nested_object_def nested_post_def
      lit_def js_whitespace_def)

lemma parse_email_nested: "parse_email nested_answer = Inr bob_email"
  by code_simp

lemma JSON_parse_nested_object:
  "JSON_parse nested_object = Some (JObject [(lit ''k'', JString (lit ''v''))])"
  by code_simp

lemma trim_unvalidated: "trim unvalidated_answer = unvalidated_answer"
  by (simp add: trim_def unvalidated_answer_def lit_def js_whitespace_def)

lemma parse_email_unvalidated:
  "parse_email unvalidated_answer =
     Inr \<lparr>to = JString (lit ''tomorrow at noon''), subject = JString (lit ''Lunch''),
          body = JString (lit ''See you there.'')\<rparr>"
  by code_simp

lemma extract_unvalidated:
  "snd (getEmailDataFromAI example_config (example_world unvalidated_answer) (msg_text example_message))
     = Inr (Some \<lparr>to = JString (lit ''tomorrow at noon''), subject = JString (lit ''Lunch''),
                  body = JString (lit ''See you there.'')\<rparr>)"
proof -
  have "unvalidated_answer \<noteq> []"
    by (simp add: unvalidated_answer_def lit_def)
  then show ?thesis
    by (simp add: extract_example trim_unvalidated parse_email_unvalidated)
qed

lemma build_email_bob: "build_email nts example_config bob_email = Inr bob_envelope"
  by (simp add: build_email_def bob_email_def bob_envelope_def example_config_def template_def
      join_element_def lit_def)

lemma sendMail_example:
  "sendMail nts example_config (example_world c) bob_email =
     ([GetAccessToken,
       MessagesSend (lit ''me'') (encode_message bob_envelope),
       ConsoleLog [LString (lit ''Email sent! Message ID: '' @ lit ''18c0ffee'')]],
      Inr (GmailMessage (lit ''18c0ffee'')))"
  by (simp add: sendMail_def sendMail_try_def build_email_bob example_world_def falsy_str_def lit_def)

subsection \<open>The events of the two modes\<close>

lemma sendMail_no_consent: "filter consent_event (fst (sendMail nts cfg w d)) = []"
  by (auto simp: sendMail_def sendMail_try_def Let_def split: sum.splits prod.splits if_splits)

lemma extraction_no_consent: "filter consent_event (fst (getEmailDataFromAI cfg w message)) = []"
  using getEmailDataFromAI_events [of cfg w message] by auto

lemma on_message_no_consent: "filter consent_event (fst (on_message nts cfg w msg)) = []"
proof -
  obtain evs r where g: "getEmailDataFromAI cfg w (msg_text msg) = (evs, r)"
    by (cases "getEmailDataFromAI cfg w (msg_text msg)")
  have e: "filter consent_event evs = []"
    using extraction_no_consent [of cfg w "msg_text msg"] g by simp
  show ?thesis
  proof (cases r)
    case (Inl err)
    with g e show ?thesis by (simp add: on_message_def Let_def)
  next
    case (Inr res)
    show ?thesis
    proof (cases res)
      case None
      with g e Inr show ?thesis by (simp add: on_message_def Let_def)
    next
      case (Some d)
      obtain evs' r' where s: "sendMail nts cfg w d = (evs', r')"
        by (cases "sendMail nts cfg w d")
      have "filter consent_event evs' = []"
        using sendMail_no_consent [of nts cfg w d] s by simp
      with g e Inr Some s show ?thesis
        by (cases r') (simp_all add: on_message_def Let_def split: sum.splits)
    qed
  qed
qed

lemma oauth2callback_no_pipeline: "filter pipeline_event (oauth2callback code exchange) = []"
  by (auto simp: oauth2callback_def split: sum.splits)

lemma oauth2callback_no_auth_url:
  "GenerateAuthUrl \<notin> set (oauth2callback code exchange)"
  "AppListen p \<notin> set (oauth2callback code exchange)"
  by (auto simp: oauth2callback_def split: sum.splits)

lemma react_pipeline_no_consent: "filter consent_event (react nts cfg RunPipeline i) = []"
  by (cases i) (simp_all add: on_message_no_consent)

lemma react_consent_no_pipeline: "filter pipeline_event (react nts cfg RunConsentFlow i) = []"
  by (cases i) (simp_all add: oauth2callback_no_pipeline)

lemma react_consent_no_auth_url:
  "GenerateAuthUrl \<notin> set (react nts cfg RunConsentFlow i)"
  "AppListen p \<notin> set (react nts cfg RunConsentFlow i)"
  by (cases i; simp add: oauth2callback_no_auth_url)+

lemma filter_concat_empty:
  "(\<And>x. x \<in> set xs \<Longrightarrow> filter P (f x) = []) \<Longrightarrow> filter P (concat (map f xs)) = []"
  by (induction xs) auto

lemma initial_refresh_token:
  "falsy_str (refresh_token (initial_credentials cfg)) \<longleftrightarrow> falsy_str (refreshToken cfg)"
  by (simp add: initial_credentials_def falsy_str_def)

subsection \<open>Base64 and base64url\<close>

lemma url_alphabet:
  "replace_all 0x2F 0x5F (replace_all 0x2B 0x2D b64_alphabet) = b64url_alphabet"
  by (simp add: replace_all_def b64_alphabet_def b64url_alphabet_def lit_def)

lemma url_alphabet_set:
  "0x2B \<notin> set b64url_alphabet" "0x2F \<notin> set b64url_alphabet" "0x3D \<notin> set b64url_alphabet"
  by (simp_all add: b64url_alphabet_def lit_def)

lemma alphabet_length: "length b64_alphabet = 64" "length b64url_alphabet = 64"
  by (simp_all add: b64_alphabet_def b64url_alphabet_def lit_def)

lemma url_alphabet_distinct: "distinct b64url_alphabet"
  by (simp add: b64url_alphabet_def lit_def)

lemma index_of_nth: "distinct xs \<Longrightarrow> k < length xs \<Longrightarrow> index_of (xs ! k) xs = Some k"
proof (induction xs arbitrary: k)
  case Nil
  then show ?case by simp
next
  case (Cons x xs)
  show ?case
  proof (cases k)
    case 0
    then show ?thesis by simp
  next
    case (Suc j)
    with Cons.prems have "j < length xs" "distinct xs" "xs ! j \<noteq> x"
      by auto
    with Cons.IH [of j] Suc show ?thesis by simp
  qed
qed

lemma b64url_value_nth: "k < 64 \<Longrightarrow> b64url_value (b64url_alphabet ! k) = Some k"
  by (simp add: b64url_value_def index_of_nth url_alphabet_distinct alphabet_length)

lemma b64url_nth_plain:
  assumes "k < 64"
  shows "b64url_alphabet ! k \<noteq> 0x2B" "b64url_alphabet ! k \<noteq> 0x2F" "b64url_alphabet ! k \<noteq> 0x3D"
proof -
  have "b64url_alphabet ! k \<in> set b64url_alphabet"
    using assms by (simp add: alphabet_length)
  then show "b64url_alphabet ! k \<noteq> 0x2B" "b64url_alphabet ! k \<noteq> 0x2F" "b64url_alphabet ! k \<noteq> 0x3D"
    using url_alphabet_set by auto
qed

lemma replace_all_url: "replace_all 0x2F 0x5F (replace_all 0x2B 0x2D s) = map url_char s"
  by (simp add: replace_all_def url_char_def)

lemma url_b64_char:
  assumes "k < 64"
  shows "url_char (b64_char k) = b64url_alphabet ! k"
proof -
  have "map url_char b64_alphabet ! k = b64url_alphabet ! k"
    using url_alphabet by (simp only: replace_all_url)
  then show ?thesis
    using assms by (simp add: alphabet_length b64_char_def)
qed

lemma url_char_pad: "url_char 0x3D = 0x3D"
  by (simp add: url_char_def)

lemma sextet_nat:
  fixes a b c :: nat
  assumes "a < 256" "b < 256" "c < 256"
  shows "a div 4 < 64"
    and "a mod 4 * 16 < 64"
    and "a mod 4 * 16 + b div 16 < 64"
    and "b mod 16 * 4 < 64"
    and "b mod 16 * 4 + c div 64 < 64"
    and "c mod 64 < 64"
  using assms by simp_all

lemma byte_bound: "unat (a::byte) < 256"
proof -
  have "unat a < 2 ^ LENGTH(8)" by (rule unsigned_less)
  then show ?thesis by simp
qed

lemma sextet_bounds:
  "unat (a::byte) div 4 < 64"
  "unat (a::byte) mod 4 * 16 < 64"
  "unat (a::byte) mod 4 * 16 + unat (b::byte) div 16 < 64"
  "unat (b::byte) mod 16 * 4 < 64"
  "unat (b::byte) mod 16 * 4 + unat (c::byte) div 64 < 64"
  "unat (c::byte) mod 64 < 64"
  using sextet_nat [OF byte_bound [of a] byte_bound [of b] byte_bound [of c]] by blast+

lemma regroup1:
  fixes a b :: nat
  assumes "b < 256"
  shows "a div 4 * 4 + (a mod 4 * 16 + b div 16) div 16 = a"
proof -
  have "b div 16 < 16" using assms by simp
  then have "(a mod 4 * 16 + b div 16) div 16 = a mod 4" by simp
  then show ?thesis by simp
qed

lemma regroup2:
  fixes a b c :: nat
  assumes "b < 256" "c < 256"
  shows "(a mod 4 * 16 + b div 16) mod 16 * 16 + (b mod 16 * 4 + c div 64) div 4 = b"
proof -
  have "b div 16 < 16" using assms by simp
  then have 1: "(a mod 4 * 16 + b div 16) mod 16 = b div 16" by simp
  have "c div 64 < 4" using assms by simp
  then have 2: "(b mod 16 * 4 + c div 64) div 4 = b mod 16" by simp
  show ?thesis unfolding 1 2 by simp
qed

lemma regroup3:
  fixes b c :: nat
  assumes "c < 256"
  shows "(b mod 16 * 4 + c div 64) mod 4 * 64 + c mod 64 = c"
proof -
  have "c div 64 < 4" using assms by simp
  then have 1: "(b mod 16 * 4 + c div 64) mod 4 = c div 64" by simp
  show ?thesis unfolding 1 by simp
qed

lemma regroup_last1:
  fixes a :: nat
  shows "a div 4 * 4 + (a mod 4 * 16) div 16 = a" and "(a mod 4 * 16) mod 16 = 0"
  by simp_all

lemma regroup_last2:
  fixes a b :: nat
  assumes "b < 256"
  shows "(a mod 4 * 16 + b div 16) mod 16 * 16 + (b mod 16 * 4) div 4 = b"
    and "(b mod 16 * 4) mod 4 = 0"
proof -
  have "b div 16 < 16" using assms by simp
  then have 1: "(a mod 4 * 16 + b div 16) mod 16 = b div 16" by simp
  show "(a mod 4 * 16 + b div 16) mod 16 * 16 + (b mod 16 * 4) div 4 = b"
    unfolding 1 by simp
  show "(b mod 16 * 4) mod 4 = 0" by simp
qed

lemma regroup_bytes:
  fixes a b c :: byte
  shows "of_nat (unat a div 4 * 4 + (unat a mod 4 * 16 + unat b div 16) div 16) = a"
    and "of_nat ((unat a mod 4 * 16 + unat b div 16) mod 16 * 16 + (unat b mod 16 * 4 + unat c div 64) div 4) = b"
    and "of_nat ((unat b mod 16 * 4 + unat c div 64) mod 4 * 64 + unat c mod 64) = c"
    and "of_nat (unat a div 4 * 4 + (unat a mod 4 * 16) div 16) = a"
    and "of_nat ((unat a mod 4 * 16 + unat b div 16) mod 16 * 16 + (unat b mod 16 * 4) div 4) = b"
proof -
  show "of_nat (unat a div 4 * 4 + (unat a mod 4 * 16 + unat b div 16) div 16) = a"
    by (simp only: regroup1 [OF byte_bound] of_nat_unat ucast_id)
  show "of_nat ((unat a mod 4 * 16 + unat b div 16) mod 16 * 16 + (unat b mod 16 * 4 + unat c div 64) div 4) = b"
    by (simp only: regroup2 [OF byte_bound byte_bound] of_nat_unat ucast_id)
  show "of_nat ((unat b mod 16 * 4 + unat c div 64) mod 4 * 64 + unat c mod 64) = c"
    by (simp only: regroup3 [OF byte_bound] of_nat_unat ucast_id)
  show "of_nat (unat a div 4 * 4 + (unat a mod 4 * 16) div 16) = a"
    by (simp only: regroup_last1 of_nat_unat ucast_id)
  show "of_nat ((unat a mod 4 * 16 + unat b div 16) mod 16 * 16 + (unat b mod 16 * 4) div 4) = b"
    by (simp only: regroup_last2 [OF byte_bound] of_nat_unat ucast_id)
qed

lemma decode_unpadded: "base64url_decode (b64url_unpadded bs) = Some bs"
proof (induction bs rule: b64url_unpadded.induct)
  case 1
  show ?case by simp
next
  case (2 a)
  have e: "base64url_decode (b64url_unpadded [a])
      = (if (unat a mod 4 * 16) mod 16 = 0
         then Some [of_nat (unat a div 4 * 4 + (unat a mod 4 * 16) div 16)] else None)"
    by (simp only: b64url_unpadded.simps base64url_decode.simps b64url_value_nth [OF sextet_bounds(1)]
        b64url_value_nth [OF sextet_bounds(2)] prod.case option.case)
  have c: "(unat a mod 4 * 16) mod 16 = 0"
    by (rule regroup_last1)
  show ?case
    using c by (simp only: e regroup_bytes if_P)
next
  case (3 a b)
  have e: "base64url_decode (b64url_unpadded [a, b])
      = (if (unat b mod 16 * 4) mod 4 = 0
         then Some [of_nat (unat a div 4 * 4 + (unat a mod 4 * 16 + unat b div 16) div 16),
                    of_nat ((unat a mod 4 * 16 + unat b div 16) mod 16 * 16 + (unat b mod 16 * 4) div 4)]
         else None)"
    by (simp only: b64url_unpadded.simps base64url_decode.simps b64url_value_nth [OF sextet_bounds(1)]
        b64url_value_nth [OF sextet_bounds(3)] b64url_value_nth [OF sextet_bounds(4)]
        prod.case option.case)
  have c: "(unat b mod 16 * 4) mod 4 = 0"
    by (rule regroup_last2 [OF byte_bound])
  show ?case
    using c by (simp only: e regroup_bytes if_P)
next
  case (4 a b c rest)
  have e: "base64url_decode (b64url_unpadded (a # b # c # rest))
      = (case base64url_decode (b64url_unpadded rest) of
           None \<Rightarrow> None
         | Some bs \<Rightarrow>
             Some (of_nat (unat a div 4 * 4 + (unat a mod 4 * 16 + unat b div 16) div 16)
                   # of_nat ((unat a mod 4 * 16 + unat b div 16) mod 16 * 16
                             + (unat b mod 16 * 4 + unat c div 64) div 4)
                   # of_nat ((unat b mod 16 * 4 + unat c div 64) mod 4 * 64 + unat c mod 64) # bs))"
    by (simp only: b64url_unpadded.simps base64url_decode.simps append_Cons append_Nil
        b64url_value_nth [OF sextet_bounds(1)] b64url_value_nth [OF sextet_bounds(3)]
        b64url_value_nth [OF sextet_bounds(5)] b64url_value_nth [OF sextet_bounds(6)]
        prod.case option.case)
  show ?case
    by (simp only: e 4 regroup_bytes option.case)
qed

lemma url_sextet:
  "url_char (b64_char (unat (a::byte) div 4)) = b64url_alphabet ! (unat a div 4)"
  "url_char (b64_char (unat (a::byte) mod 4 * 16)) = b64url_alphabet ! (unat a mod 4 * 16)"
  "url_char (b64_char (unat (a::byte) mod 4 * 16 + unat (b::byte) div 16))
     = b64url_alphabet ! (unat a mod 4 * 16 + unat b div 16)"
  "url_char (b64_char (unat (b::byte) mod 16 * 4)) = b64url_alphabet ! (unat b mod 16 * 4)"
  "url_char (b64_char (unat (b::byte) mod 16 * 4 + unat (c::byte) div 64))
     = b64url_alphabet ! (unat b mod 16 * 4 + unat c div 64)"
  "url_char (b64_char (unat (c::byte) mod 64)) = b64url_alphabet ! (unat c mod 64)"
  by (rule url_b64_char, rule sextet_bounds)+

lemma sextet_not_pad:
  "b64url_alphabet ! (unat (a::byte) div 4) \<noteq> 0x3D"
  "b64url_alphabet ! (unat (a::byte) mod 4 * 16) \<noteq> 0x3D"
  "b64url_alphabet ! (unat (a::byte) mod 4 * 16 + unat (b::byte) div 16) \<noteq> 0x3D"
  "b64url_alphabet ! (unat (b::byte) mod 16 * 4) \<noteq> 0x3D"
  "b64url_alphabet ! (unat (b::byte) mod 16 * 4 + unat (c::byte) div 64) \<noteq> 0x3D"
  "b64url_alphabet ! (unat (c::byte) mod 64) \<noteq> 0x3D"
  by (rule b64url_nth_plain, rule sextet_bounds)+

lemma strip_padding_keep: "c \<noteq> 0x3D \<Longrightarrow> strip_padding (c # cs) = c # strip_padding cs"
  by simp

lemma strip_padding_pads:
  "strip_padding [0x3D] = []" "strip_padding [0x3D, 0x3D] = []"
  by simp_all

lemma encode_unpadded:
  "strip_padding (map url_char (base64 bs)) = b64url_unpadded bs"
proof (induction bs rule: base64.induct)
  case 1
  show ?case by simp
next
  case (2 a)
  show ?case
    by (simp only: base64.simps list.map url_sextet url_char_pad b64url_unpadded.simps
        strip_padding_keep [OF sextet_not_pad(1)] strip_padding_keep [OF sextet_not_pad(2)]
        strip_padding_pads)
next
  case (3 a b)
  show ?case
    by (simp only: base64.simps list.map url_sextet url_char_pad b64url_unpadded.simps
        strip_padding_keep [OF sextet_not_pad(1)] strip_padding_keep [OF sextet_not_pad(3)]
        strip_padding_keep [OF sextet_not_pad(4)] strip_padding_pads)
next
  case (4 a b c rest)
  show ?case
    by (simp only: base64.simps list.map map_append append_Cons append_Nil url_sextet
        b64url_unpadded.simps 4
        strip_padding_keep [OF sextet_not_pad(1)] strip_padding_keep [OF sextet_not_pad(3)]
        strip_padding_keep [OF sextet_not_pad(5)] strip_padding_keep [OF sextet_not_pad(6)])
qed

lemma unpadded_subset: "set (b64url_unpadded bs) \<subseteq> set b64url_alphabet"
proof (induction bs rule: b64url_unpadded.induct)
  case 1
  show ?case by simp
next
  case (2 a)
  show ?case
    using sextet_bounds(1,2) [of a] by (simp add: alphabet_length)
next
  case (3 a b)
  show ?case
    using sextet_bounds(1) [of a] sextet_bounds(3) [of a b] sextet_bounds(4) [of b]
    by (simp add: alphabet_length)
next
  case (4 a b c rest)
  then show ?case
    using sextet_bounds(1) [of a] sextet_bounds(3) [of a b] sextet_bounds(5) [of b c]
      sextet_bounds(6) [of c]
    by (simp add: alphabet_length)
qed

lemma encode_message_unpadded: "encode_message email = b64url_unpadded (utf8_encode email)"
  by (simp only: encode_message_def replace_all_url encode_unpadded)

lemma short_envelope_encoded:
  "encode_message short_envelope = lit ''VG86IGJvYkBleGFtcGxlLmNvbQ0KDQrinIU''"
  by (simp add: encode_message_def short_envelope_def lit_def replace_all_def
      b64_char_def b64_alphabet_def is_high_surrogate_def is_low_surrogate_def)

subsection \<open>The parser consumes input\<close>

text \<open>So the tests added for the termination proof never fail.\<close>

lemma skip_ws_length: "length (skip_ws s) \<le> length s"
  by (simp add: skip_ws_def length_dropWhile_le)

lemma scan_fraction_length: "scan_fraction s = Some (fp, r) \<Longrightarrow> length r \<le> length s"
  by (auto simp: scan_fraction_def split: list.splits if_splits
      intro: le_SucI length_dropWhile_le)

lemma scan_exponent_length: "scan_exponent s = Some (ex, r) \<Longrightarrow> length r \<le> length s"
proof -
  assume a: "scan_exponent s = Some (ex, r)"
  show ?thesis
  proof (cases s)
    case Nil
    with a show ?thesis by (simp add: scan_exponent_def)
  next
    case (Cons c cs)
    show ?thesis
    proof (cases "c = 0x65 \<or> c = 0x45")
      case False
      with a Cons show ?thesis by (simp add: scan_exponent_def)
    next
      case True
      obtain neg ds where d: "(case cs of [] \<Rightarrow> (False, cs)
          | d # r \<Rightarrow> if d = 0x2D then (True, r) else if d = 0x2B then (False, r) else (False, cs))
          = (neg, ds)"
        by (cases "(case cs of [] \<Rightarrow> (False, cs)
          | d # r \<Rightarrow> if d = 0x2D then (True, r) else if d = 0x2B then (False, r) else (False, cs))")
      then have l: "length ds \<le> length cs"
        by (auto split: list.splits if_splits)
      from a Cons True d have "r = dropWhile is_digit ds"
        by (auto simp: scan_exponent_def split: if_splits)
      then have "length r \<le> length ds"
        by (simp add: length_dropWhile_le)
      with l Cons show ?thesis by simp
    qed
  qed
qed

lemma scan_number_shorter: "scan_number s = Some (m, e, r) \<Longrightarrow> length r < length s"
proof -
  assume a: "scan_number s = Some (m, e, r)"
  obtain neg s1 where s1: "scan_sign s = (neg, s1)"
    by (cases "scan_sign s")
  then have l1: "length s1 \<le> length s"
    by (auto simp: scan_sign_def split: list.splits if_splits)
  from a s1 have ne: "takeWhile is_digit s1 \<noteq> []"
    by (auto simp: scan_number_def Let_def split: if_splits)
  have "length (takeWhile is_digit s1) + length (dropWhile is_digit s1) = length s1"
    by (metis length_append takeWhile_dropWhile_id)
  with ne have l2: "length (dropWhile is_digit s1) < length s1"
    by (cases "takeWhile is_digit s1") auto
  from a s1 obtain fp s2 ex where
    f: "scan_fraction (dropWhile is_digit s1) = Some (fp, s2)" and x: "scan_exponent s2 = Some (ex, r)"
    by (auto simp: scan_number_def Let_def split: if_splits option.splits)
  from scan_fraction_length [OF f] scan_exponent_length [OF x] l1 l2
  show ?thesis by simp
qed

lemma parse_value_shorter:
  "(\<forall>v r. parse_value s = Some (v, r) \<longrightarrow> length r < length s)"
  "(\<forall>vs r. parse_elements s1 = Some (vs, r) \<longrightarrow> length r < length s1)"
  "(\<forall>kvs r. parse_members s2 = Some (kvs, r) \<longrightarrow> length r < length s2)"
proof (induction s and s1 and s2 rule: parse_value_parse_elements_parse_members.induct)
  case (1 s)
  show ?case
  proof (intro allI impI)
    fix v r
    assume a: "parse_value s = Some (v, r)"
    then obtain c cs where sk: "skip_ws s = c # cs"
      by (subst (asm) parse_value.simps) (auto split: list.splits)
    have ls: "length (c # cs) \<le> length s"
      using skip_ws_length [of s] sk by simp
    have lc: "length (skip_ws cs) \<le> length cs"
      by (rule skip_ws_length)
    consider (obj) "c = LBRACE" | (arr) "c \<noteq> LBRACE" "c = 0x5B"
      | (str) "c \<noteq> LBRACE" "c \<noteq> 0x5B" "c = 0x22"
      | (num) "c \<noteq> LBRACE" "c \<noteq> 0x5B" "c \<noteq> 0x22" "c = 0x2D \<or> is_digit c"
      | (lit) "c \<noteq> LBRACE" "c \<noteq> 0x5B" "c \<noteq> 0x22" "\<not> (c = 0x2D \<or> is_digit c)"
      by blast
    then show "length r < length s"
    proof cases
      case obj
      from a sk obj obtain d ds where d: "skip_ws cs = d # ds"
        by (subst (asm) parse_value.simps) (auto split: list.splits)
      show ?thesis
      proof (cases "d = RBRACE")
        case True
        with a sk obj d have "r = ds"
          by (subst (asm) parse_value.simps) simp
        with d lc ls show ?thesis by simp
      next
        case False
        with a sk obj d obtain kvs where "parse_members (d # ds) = Some (kvs, r)"
          by (subst (asm) parse_value.simps) (auto split: option.splits)
        with "1.IH"(1) [OF sk obj d False] have "length r < length (d # ds)" by blast
        with d lc ls show ?thesis by simp
      qed
    next
      case arr
      from a sk arr obtain d ds where d: "skip_ws cs = d # ds"
        by (subst (asm) parse_value.simps) (auto split: list.splits)
      show ?thesis
      proof (cases "d = 0x5D")
        case True
        with a sk arr d have "r = ds"
          by (subst (asm) parse_value.simps) simp
        with d lc ls show ?thesis by simp
      next
        case False
        with a sk arr d obtain vs where "parse_elements (d # ds) = Some (vs, r)"
          by (subst (asm) parse_value.simps) (auto split: option.splits)
        with "1.IH"(2) [OF sk arr(1) arr(2) d False] have "length r < length (d # ds)" by blast
        with d lc ls show ?thesis by simp
      qed
    next
      case str
      with a sk obtain x where "scan_string cs = Some (x, r)"
        by (subst (asm) parse_value.simps) (auto split: option.splits)
      from scan_string_shorter [OF this] ls show ?thesis by simp
    next
      case num
      with a sk obtain m e where "scan_number (c # cs) = Some (m, e, r)"
        by (subst (asm) parse_value.simps) (auto split: option.splits)
      from scan_number_shorter [OF this] ls show ?thesis by simp
    next
      case lit
      with a sk have "r = drop 4 (c # cs) \<or> r = drop 5 (c # cs)"
        by (subst (asm) parse_value.simps) (auto split: if_splits)
      with ls show ?thesis by auto
    qed
  qed
next
  case (2 s)
  show ?case
  proof (intro allI impI)
    fix vs r
    assume a: "parse_elements s = Some (vs, r)"
    then obtain v r1 where v: "parse_value s = Some (v, r1)"
      by (subst (asm) parse_elements.simps) (auto split: option.splits)
    from a v have g: "length r1 < length s"
      by (subst (asm) parse_elements.simps) (auto split: if_splits)
    from a v g obtain c cs where c: "skip_ws r1 = c # cs"
      by (subst (asm) parse_elements.simps) (auto split: list.splits)
    have l: "length cs < length r1"
      using skip_ws_length [of r1] c by simp
    show "length r < length s"
    proof (cases "c = 0x2C")
      case True
      with a v g c obtain vs' where e: "parse_elements cs = Some (vs', r)"
        by (subst (asm) parse_elements.simps) (auto split: option.splits)
      have "length r < length cs"
        using "2.IH"(2) [OF v _ g c True] e by auto
      with l g show ?thesis by simp
    next
      case False
      with a v g c have "r = cs"
        by (subst (asm) parse_elements.simps) (auto split: if_splits)
      with l g show ?thesis by simp
    qed
  qed
next
  case (3 s)
  show ?case
  proof (intro allI impI)
    fix kvs r
    assume a: "parse_members s = Some (kvs, r)"
    then obtain c cs where sk: "skip_ws s = c # cs" and c: "c = 0x22"
      by (subst (asm) parse_members.simps) (auto split: list.splits if_splits)
    have ls: "length (c # cs) \<le> length s"
      using skip_ws_length [of s] sk by simp
    from a sk c obtain k r1 where k: "scan_string cs = Some (k, r1)"
      by (subst (asm) parse_members.simps) (auto split: option.splits)
    from a sk c k obtain d ds where d: "skip_ws r1 = d # ds" and dc: "d = 0x3A"
      by (subst (asm) parse_members.simps) (auto split: list.splits if_splits)
    from a sk c k d dc obtain v r' where v: "parse_value ds = Some (v, r')"
      by (subst (asm) parse_members.simps) (auto split: option.splits)
    from a sk c k d dc v have g: "length r' < length ds"
      by (subst (asm) parse_members.simps) (auto split: if_splits)
    from a sk c k d dc v g obtain e es where e: "skip_ws r' = e # es"
      by (subst (asm) parse_members.simps) (auto split: list.splits)
    have l1: "length ds < length r1"
      using skip_ws_length [of r1] d by simp
    have l2: "length r1 < length cs"
      by (rule scan_string_shorter [OF k])
    have l3: "length es < length r'"
      using skip_ws_length [of r'] e by simp
    show "length r < length s"
    proof (cases "e = 0x2C")
      case True
      with a sk c k d dc v g e obtain kvs' where m: "parse_members es = Some (kvs', r)"
        by (subst (asm) parse_members.simps) (auto split: option.splits)
      have "length r < length es"
        using "3.IH"(2) [OF sk c k _ d dc _ _ g e True] v m by auto
      with l1 l2 l3 g ls show ?thesis by simp
    next
      case False
      with a sk c k d dc v g e have "r = es"
        by (subst (asm) parse_members.simps) (auto split: if_splits)
      with l1 l2 l3 g ls show ?thesis by simp
    qed
  qed
qed

lemma parse_elements_unguarded:
  "parse_elements s =
     (case parse_value s of
        None \<Rightarrow> None
      | Some (v, r) \<Rightarrow>
          (case skip_ws r of
             [] \<Rightarrow> None
           | c # cs \<Rightarrow>
               if c = 0x2C then
                 (case parse_elements cs of
                    None \<Rightarrow> None
                  | Some (vs, r') \<Rightarrow> Some (v # vs, r'))
               else if c = 0x5D then Some ([v], cs)
               else None))"
  using parse_value_shorter(1) [of s]
  by (subst parse_elements.simps) (auto split: option.splits)

lemma parse_members_unguarded:
  "parse_members s =
     (case skip_ws s of
        [] \<Rightarrow> None
      | c # cs \<Rightarrow>
          if c = 0x22 then
            (case scan_string cs of
               None \<Rightarrow> None
             | Some (k, r) \<Rightarrow>
                 (case skip_ws r of
                    [] \<Rightarrow> None
                  | d # ds \<Rightarrow>
                      if d = 0x3A then
                        (case parse_value ds of
                           None \<Rightarrow> None
                         | Some (v, r') \<Rightarrow>
                             (case skip_ws r' of
                                [] \<Rightarrow> None
                              | e # es \<Rightarrow>
                                  if e = 0x2C then
                                    (case parse_members es of
                                       None \<Rightarrow> None
                                     | Some (kvs, r'') \<Rightarrow> Some ((k, v) # kvs, r''))
                                  else if e = RBRACE then Some ([(k, v)], es)
                                  else None))
                      else None))
          else None)"
proof -
  have "\<And>ds v r'. parse_value ds = Some (v, r') \<Longrightarrow> length r' < length ds"
    using parse_value_shorter(1) by blast
  then show ?thesis
    by (subst parse_members.simps) (auto split: option.splits list.splits)
qed

subsection \<open>The parser reads a prefix of its input\<close>

text \<open>What follows the text of a value does not change how the value is read, with one
  exception: a number at the very end of the input, which more digits would extend.\<close>

lemma skip_ws_append: "skip_ws s = c # cs \<Longrightarrow> skip_ws (s @ t) = c # cs @ t"
proof -
  assume a: "skip_ws s = c # cs"
  then have "dropWhile json_ws s \<noteq> []"
    by (simp add: skip_ws_def)
  then obtain x where "x \<in> set s" "\<not> json_ws x"
    by (auto simp: dropWhile_eq_Nil_conv)
  then have "dropWhile json_ws (s @ t) = dropWhile json_ws s @ t"
    by (rule dropWhile_append1)
  with a show ?thesis
    by (simp add: skip_ws_def)
qed

lemma digits_append:
  "dropWhile is_digit s \<noteq> [] \<Longrightarrow>
     takeWhile is_digit (s @ t) = takeWhile is_digit s \<and>
     dropWhile is_digit (s @ t) = dropWhile is_digit s @ t"
proof -
  assume "dropWhile is_digit s \<noteq> []"
  then obtain x where "x \<in> set s" "\<not> is_digit x"
    by (auto simp: dropWhile_eq_Nil_conv)
  then show ?thesis
    by (simp add: takeWhile_append1 dropWhile_append1)
qed

lemma scan_string_append:
  "scan_string s = Some (str, r) \<Longrightarrow> scan_string (s @ t) = Some (str, r @ t)"
proof (induction s arbitrary: str r rule: scan_string.induct)
  case 1
  then show ?case by simp
next
  case (2 c cs)
  show ?case
  proof (cases "c = 0x22")
    case True
    with "2.prems" show ?thesis by simp
  next
    case nq: False
    show ?thesis
    proof (cases "c = 0x5C")
      case True
      with nq "2.prems" obtain e es where cs: "cs = e # es"
        by (cases cs) auto
      show ?thesis
      proof (cases "e = 0x75")
        case u: True
        with nq True cs "2.prems" obtain h1 h2 h3 h4 rest where es: "es = h1 # h2 # h3 # h4 # rest"
          by (auto split: list.splits)
        with nq True cs u "2.prems" obtain x where h: "hex4 h1 h2 h3 h4 = Some x"
          by (auto split: option.splits)
        with nq True cs u es "2.prems" obtain str' where
          r: "scan_string rest = Some (str', r)" and str: "str = x # str'"
          by (auto split: option.splits)
        have "scan_string (rest @ t) = Some (str', r @ t)"
          using "2.IH"(1) [OF nq True cs u es refl refl refl h r] .
        with nq True cs u es h str show ?thesis by simp
      next
        case u: False
        with nq True cs "2.prems" obtain x where h: "simple_escape e = Some x"
          by (auto split: option.splits)
        with nq True cs u "2.prems" obtain str' where
          r: "scan_string es = Some (str', r)" and str: "str = x # str'"
          by (auto split: option.splits)
        have "scan_string (es @ t) = Some (str', r @ t)"
          using "2.IH"(2) [OF nq True cs u h r] .
        with nq True cs u h str show ?thesis by simp
      qed
    next
      case nb: False
      with nq "2.prems" have ctl: "\<not> c < 0x20"
        by (auto split: if_splits)
      with nq nb "2.prems" obtain str' where
        r: "scan_string cs = Some (str', r)" and str: "str = c # str'"
        by (auto split: option.splits)
      have "scan_string (cs @ t) = Some (str', r @ t)"
        using "2.IH"(3) [OF nq nb ctl r] .
      with nq nb ctl str show ?thesis by simp
    qed
  qed
qed

lemma scan_exponent_append:
  assumes "scan_exponent s = Some (ex, r)" and "r \<noteq> []"
  shows "scan_exponent (s @ t) = Some (ex, r @ t)"
proof (cases s)
  case Nil
  with assms show ?thesis by (simp add: scan_exponent_def)
next
  case (Cons c cs)
  show ?thesis
  proof (cases "c = 0x65 \<or> c = 0x45")
    case False
    with assms(1) Cons have "r = c # cs" "ex = 0"
      by (auto simp: scan_exponent_def)
    with Cons False show ?thesis
      by (simp add: scan_exponent_def)
  next
    case True
    obtain neg ds where d: "(case cs of [] \<Rightarrow> (False, cs)
        | d # r \<Rightarrow> if d = 0x2D then (True, r) else if d = 0x2B then (False, r) else (False, cs))
        = (neg, ds)"
      by (cases "(case cs of [] \<Rightarrow> (False, cs)
        | d # r \<Rightarrow> if d = 0x2D then (True, r) else if d = 0x2B then (False, r) else (False, cs))")
    from assms(1) Cons True d have r: "r = dropWhile is_digit ds" and ne: "takeWhile is_digit ds \<noteq> []"
      and ex: "ex = (if neg then - int (digits_val (takeWhile is_digit ds))
                  else int (digits_val (takeWhile is_digit ds)))"
      by (auto simp: scan_exponent_def split: if_splits)
    from r assms(2) have dn: "dropWhile is_digit ds \<noteq> []" by simp
    then have "ds \<noteq> []" by auto
    with d have csn: "cs \<noteq> []" by (auto split: list.splits)
    have d': "(case cs @ t of [] \<Rightarrow> (False, cs @ t)
        | d # r \<Rightarrow> if d = 0x2D then (True, r) else if d = 0x2B then (False, r) else (False, cs @ t))
        = (neg, ds @ t)"
      using d csn by (cases cs) (auto split: if_splits)
    show ?thesis
      using Cons True d' digits_append [OF dn, of t] ne r ex
      by (simp add: scan_exponent_def)
  qed
qed

lemma scan_exponent_nonempty: "scan_exponent s = Some (ex, r) \<Longrightarrow> r \<noteq> [] \<Longrightarrow> s \<noteq> []"
  by (auto simp: scan_exponent_def)

lemma scan_fraction_append:
  assumes "scan_fraction s = Some (fp, r)" and "r \<noteq> []"
  shows "scan_fraction (s @ t) = Some (fp, r @ t)"
proof (cases s)
  case Nil
  with assms show ?thesis by (simp add: scan_fraction_def)
next
  case (Cons c cs)
  show ?thesis
  proof (cases "c = 0x2E")
    case False
    with assms(1) Cons have "r = c # cs" "fp = []"
      by (auto simp: scan_fraction_def)
    with Cons False show ?thesis
      by (simp add: scan_fraction_def)
  next
    case True
    with assms Cons have "r = dropWhile is_digit cs" "fp = takeWhile is_digit cs"
      "takeWhile is_digit cs \<noteq> []"
      by (auto simp: scan_fraction_def split: if_splits)
    with assms(2) digits_append [of cs t] Cons True show ?thesis
      by (simp add: scan_fraction_def)
  qed
qed

lemma scan_fraction_nonempty: "scan_fraction s = Some (fp, r) \<Longrightarrow> r \<noteq> [] \<Longrightarrow> s \<noteq> []"
  by (auto simp: scan_fraction_def)

lemma scan_number_append:
  assumes "scan_number s = Some (m, e, r)" and "r \<noteq> []"
  shows "scan_number (s @ t) = Some (m, e, r @ t)"
proof -
  obtain neg s1 where s1: "scan_sign s = (neg, s1)"
    by (cases "scan_sign s")
  from assms(1) s1 have ip: "takeWhile is_digit s1 \<noteq> []"
    and lz: "\<not> (1 < length (takeWhile is_digit s1) \<and> hd (takeWhile is_digit s1) = 0x30)"
    by (auto simp: scan_number_def Let_def split: if_splits)
  from assms(1) s1 ip lz obtain fp s2 ex where
    f: "scan_fraction (dropWhile is_digit s1) = Some (fp, s2)" and x: "scan_exponent s2 = Some (ex, r)"
    and m: "m = (if neg then - int (digits_val (takeWhile is_digit s1 @ fp))
                 else int (digits_val (takeWhile is_digit s1 @ fp)))"
    and e: "e = ex - int (length fp)"
    by (auto simp: scan_number_def Let_def split: if_splits option.splits)
  have s2n: "s2 \<noteq> []"
    using scan_exponent_nonempty [OF x assms(2)] .
  have dn: "dropWhile is_digit s1 \<noteq> []"
    using scan_fraction_nonempty [OF f s2n] .
  from ip have "s1 \<noteq> []" by auto
  with s1 have s1': "scan_sign (s @ t) = (neg, s1 @ t)"
    by (auto simp: scan_sign_def split: list.splits if_splits)
  have 1: "takeWhile is_digit (s1 @ t) = takeWhile is_digit s1"
    "dropWhile is_digit (s1 @ t) = dropWhile is_digit s1 @ t"
    using digits_append [OF dn, of t] by simp_all
  have 2: "scan_fraction (dropWhile is_digit s1 @ t) = Some (fp, s2 @ t)"
    by (rule scan_fraction_append [OF f s2n])
  have 3: "scan_exponent (s2 @ t) = Some (ex, r @ t)"
    by (rule scan_exponent_append [OF x assms(2)])
  have "scan_number (s @ t) =
      Some ((if neg then - int (digits_val (takeWhile is_digit s1 @ fp))
             else int (digits_val (takeWhile is_digit s1 @ fp))),
            ex - int (length fp), r @ t)"
    unfolding scan_number_def s1' Let_def prod.case 1 2 3 option.case
    using ip lz by (simp only: if_False simp_thms)
  then show ?thesis
    by (simp only: m e)
qed

lemma take_literal:
  assumes "take n xs = ys" and "length ys = n"
  shows "xs = ys @ drop n xs"
  using assms append_take_drop_id [of n xs] by simp

lemma parse_append:
  "(\<forall>v r. parse_value s = Some (v, r) \<longrightarrow> (r \<noteq> [] \<or> (\<forall>m e. v \<noteq> JNumber m e))
      \<longrightarrow> parse_value (s @ t) = Some (v, r @ t))"
  "(\<forall>vs r. parse_elements s1 = Some (vs, r) \<longrightarrow> parse_elements (s1 @ t) = Some (vs, r @ t))"
  "(\<forall>kvs r. parse_members s2 = Some (kvs, r) \<longrightarrow> parse_members (s2 @ t) = Some (kvs, r @ t))"
proof (induction s and s1 and s2 rule: parse_value_parse_elements_parse_members.induct)
  case (1 s)
  show ?case
  proof (intro allI impI)
    fix v r
    assume a: "parse_value s = Some (v, r)"
      and n: "r \<noteq> [] \<or> (\<forall>m e. v \<noteq> JNumber m e)"
    from a obtain c cs where sk: "skip_ws s = c # cs"
      by (subst (asm) parse_value.simps) (auto split: list.splits)
    have sk': "skip_ws (s @ t) = c # cs @ t"
      by (rule skip_ws_append [OF sk])
    consider (obj) "c = LBRACE" | (arr) "c \<noteq> LBRACE" "c = 0x5B"
      | (str) "c \<noteq> LBRACE" "c \<noteq> 0x5B" "c = 0x22"
      | (num) "c \<noteq> LBRACE" "c \<noteq> 0x5B" "c \<noteq> 0x22" "c = 0x2D \<or> is_digit c"
      | (lit) "c \<noteq> LBRACE" "c \<noteq> 0x5B" "c \<noteq> 0x22" "\<not> (c = 0x2D \<or> is_digit c)"
      by blast
    then show "parse_value (s @ t) = Some (v, r @ t)"
    proof cases
      case obj
      from a sk obj obtain d ds where d: "skip_ws cs = d # ds"
        by (subst (asm) parse_value.simps) (auto split: list.splits)
      have d': "skip_ws (cs @ t) = d # ds @ t"
        by (rule skip_ws_append [OF d])
      show ?thesis
      proof (cases "d = RBRACE")
        case True
        with a sk obj d have "v = JObject []" "r = ds"
          by (subst (asm) parse_value.simps, simp)+
        with sk' obj d' True show ?thesis
          by (subst parse_value.simps) simp
      next
        case False
        with a sk obj d obtain kvs where m: "parse_members (d # ds) = Some (kvs, r)"
          and v: "v = JObject kvs"
          by (subst (asm) parse_value.simps) (auto split: option.splits)
        from "1.IH"(1) [OF sk obj d False] m
        have "parse_members ((d # ds) @ t) = Some (kvs, r @ t)" by blast
        with sk' obj d' False v show ?thesis
          by (subst parse_value.simps) simp
      qed
    next
      case arr
      from a sk arr obtain d ds where d: "skip_ws cs = d # ds"
        by (subst (asm) parse_value.simps) (auto split: list.splits)
      have d': "skip_ws (cs @ t) = d # ds @ t"
        by (rule skip_ws_append [OF d])
      show ?thesis
      proof (cases "d = 0x5D")
        case True
        with a sk arr d have "v = JArray []" "r = ds"
          by (subst (asm) parse_value.simps, simp)+
        with sk' arr d' True show ?thesis
          by (subst parse_value.simps) simp
      next
        case False
        with a sk arr d obtain vs where m: "parse_elements (d # ds) = Some (vs, r)"
          and v: "v = JArray vs"
          by (subst (asm) parse_value.simps) (auto split: option.splits)
        from "1.IH"(2) [OF sk arr(1) arr(2) d False] m
        have "parse_elements ((d # ds) @ t) = Some (vs, r @ t)" by blast
        with sk' arr d' False v show ?thesis
          by (subst parse_value.simps) simp
      qed
    next
      case str
      with a sk obtain x where x: "scan_string cs = Some (x, r)" and v: "v = JString x"
        by (subst (asm) parse_value.simps) (auto split: option.splits)
      from scan_string_append [OF x, of t] sk' str v show ?thesis
        by (subst parse_value.simps) simp
    next
      case num
      with a sk obtain m e where x: "scan_number (c # cs) = Some (m, e, r)" and v: "v = JNumber m e"
        by (subst (asm) parse_value.simps) (auto split: option.splits)
      from v n have "r \<noteq> []" by simp
      from scan_number_append [OF x this, of t]
      have "scan_number (c # cs @ t) = Some (m, e, r @ t)" by simp
      with sk' num v show ?thesis
        by (subst parse_value.simps) simp
    next
      case lit
      from a sk lit have alt:
        "(take 4 (c # cs) = lit ''true'' \<and> v = JBool True \<and> r = drop 4 (c # cs)) \<or>
         (take 5 (c # cs) = lit ''false'' \<and> v = JBool False \<and> r = drop 5 (c # cs)) \<or>
         (take 4 (c # cs) = lit ''null'' \<and> v = JNull \<and> r = drop 4 (c # cs))"
        by (subst (asm) parse_value.simps) (auto split: if_splits)
      then consider
          (t) "c # cs = lit ''true'' @ r" "v = JBool True"
        | (f) "c # cs = lit ''false'' @ r" "v = JBool False"
        | (n) "c # cs = lit ''null'' @ r" "v = JNull"
        using take_literal [of 4 "c # cs" "lit ''true''"] take_literal [of 5 "c # cs" "lit ''false''"]
          take_literal [of 4 "c # cs" "lit ''null''"]
        by (auto simp: lit_def)
      then show ?thesis
      proof cases
        case t
        then have "c = 0x74" "cs = [0x72, 0x75, 0x65] @ r"
          by (simp_all add: lit_def)
        with sk' t(2) show ?thesis
          by (subst parse_value.simps) (simp add: lit_def is_digit_def)
      next
        case f
        then have "c = 0x66" "cs = [0x61, 0x6C, 0x73, 0x65] @ r"
          by (simp_all add: lit_def)
        with sk' f(2) show ?thesis
          by (subst parse_value.simps) (simp add: lit_def is_digit_def)
      next
        case n
        then have "c = 0x6E" "cs = [0x75, 0x6C, 0x6C] @ r"
          by (simp_all add: lit_def)
        with sk' n(2) show ?thesis
          by (subst parse_value.simps) (simp add: lit_def is_digit_def)
      qed
    qed
  qed
next
  case (2 s)
  show ?case
  proof (intro allI impI)
    fix vs r
    assume a: "parse_elements s = Some (vs, r)"
    then obtain v r1 where v: "parse_value s = Some (v, r1)"
      by (subst (asm) parse_elements.simps) (auto split: option.splits)
    have g: "length r1 < length s"
      using parse_value_shorter(1) v by blast
    from a v obtain c cs where c: "skip_ws r1 = c # cs"
      by (subst (asm) parse_elements_unguarded) (auto split: list.splits)
    then have "r1 \<noteq> []"
      by (auto simp: skip_ws_def)
    with "2.IH"(1) v have v': "parse_value (s @ t) = Some (v, r1 @ t)"
      by blast
    have c': "skip_ws (r1 @ t) = c # cs @ t"
      by (rule skip_ws_append [OF c])
    show "parse_elements (s @ t) = Some (vs, r @ t)"
    proof (cases "c = 0x2C")
      case True
      with a v c obtain vs' where e: "parse_elements cs = Some (vs', r)" and vs: "vs = v # vs'"
        by (subst (asm) parse_elements_unguarded) (auto split: option.splits)
      have "parse_elements (cs @ t) = Some (vs', r @ t)"
        using "2.IH"(2) [OF v _ g c True] e by auto
      with v' c' True vs show ?thesis
        by (subst parse_elements_unguarded) simp
    next
      case False
      with a v c have "c = 0x5D" "r = cs" "vs = [v]"
        by (subst (asm) parse_elements_unguarded, auto split: if_splits)+
      with v' c' False show ?thesis
        by (subst parse_elements_unguarded) simp
    qed
  qed
next
  case (3 s)
  show ?case
  proof (intro allI impI)
    fix kvs r
    assume a: "parse_members s = Some (kvs, r)"
    then obtain c cs where sk: "skip_ws s = c # cs" and c: "c = 0x22"
      by (subst (asm) parse_members.simps) (auto split: list.splits if_splits)
    from a sk c obtain k r1 where k: "scan_string cs = Some (k, r1)"
      by (subst (asm) parse_members.simps) (auto split: option.splits)
    from a sk c k obtain d ds where d: "skip_ws r1 = d # ds" and dc: "d = 0x3A"
      by (subst (asm) parse_members.simps) (auto split: list.splits if_splits)
    from a sk c k d dc obtain v r' where v: "parse_value ds = Some (v, r')"
      by (subst (asm) parse_members.simps) (auto split: option.splits)
    have g: "length r' < length ds"
      using parse_value_shorter(1) v by blast
    from a sk c k d dc v obtain e es where e: "skip_ws r' = e # es"
      by (subst (asm) parse_members_unguarded) (auto split: list.splits)
    then have "r' \<noteq> []"
      by (auto simp: skip_ws_def)
    with "3.IH"(1) [OF sk c k _ d dc] v have v': "parse_value (ds @ t) = Some (v, r' @ t)"
      by blast
    have sk': "skip_ws (s @ t) = c # cs @ t"
      by (rule skip_ws_append [OF sk])
    have k': "scan_string (cs @ t) = Some (k, r1 @ t)"
      by (rule scan_string_append [OF k])
    have d': "skip_ws (r1 @ t) = d # ds @ t"
      by (rule skip_ws_append [OF d])
    have e': "skip_ws (r' @ t) = e # es @ t"
      by (rule skip_ws_append [OF e])
    show "parse_members (s @ t) = Some (kvs, r @ t)"
    proof (cases "e = 0x2C")
      case True
      with a sk c k d dc v e obtain kvs' where m: "parse_members es = Some (kvs', r)"
        and kvs: "kvs = (k, v) # kvs'"
        by (subst (asm) parse_members_unguarded) (auto split: option.splits)
      have "parse_members (es @ t) = Some (kvs', r @ t)"
        using "3.IH"(2) [OF sk c k _ d dc _ _ g e True] v m by auto
      with sk' c k' d' dc v' e' True kvs show ?thesis
        by (subst parse_members_unguarded) simp
    next
      case False
      with a sk c k d dc v e have "e = RBRACE" "r = es" "kvs = [(k, v)]"
        by (subst (asm) parse_members_unguarded, auto split: if_splits)+
      with sk' c k' d' dc v' e' show ?thesis
        by (subst parse_members_unguarded) simp
    qed
  qed
qed

lemma parse_object_append:
  "parse_value s = Some (JObject kvs, r) \<Longrightarrow> parse_value (s @ t) = Some (JObject kvs, r @ t)"
  using parse_append(1) [of s t] by blast

lemma JSON_parse_object_then_rbrace:
  assumes "JSON_parse obj = Some (JObject kvs)"
  shows "JSON_parse (obj @ p @ [RBRACE]) = None"
proof -
  from assms obtain r where "parse_value obj = Some (JObject kvs, r)"
    by (auto simp: JSON_parse_def split: option.splits if_splits)
  then have "parse_value (obj @ p @ [RBRACE]) = Some (JObject kvs, r @ p @ [RBRACE])"
    by (rule parse_object_append)
  moreover have "skip_ws (r @ p @ [RBRACE]) \<noteq> []"
    by (simp add: skip_ws_def dropWhile_eq_Nil_conv json_ws_def)
  ultimately show ?thesis
    by (simp add: JSON_parse_def)
qed

section \<open>Extraction of a well-formed answer (C1)\<close>

text \<open>
  C1, as amended. When the content of the first choice's message is a well-formed JSON
  object whose \<open>email\<close>, \<open>subject\<close> and \<open>body\<close> are non-empty strings, surrounded by
  prose that has no opening brace before the object and no closing brace after it,
  \<open>getEmailDataFromAI\<close> returns the command with exactly those three values.
\<close>

theorem extract_well_formed:
  assumes "fetch w (completion_request cfg message) = Inr (Inr data)"
    and "get_prop data Choices = Inr (Some (JArray (choice # others)))"
    and "get_prop choice Message = Inr (Some msg)"
    and "get_prop msg Content = Inr (Some (JString content))"
    and "content = pre @ LBRACE # mid @ RBRACE # post"
    and "LBRACE \<notin> set pre" and "RBRACE \<notin> set post"
    and "JSON_parse (LBRACE # mid @ [RBRACE]) = Some (JObject kvs)"
    and "map_of (rev kvs) (lit ''email'') = Some (JString e)" and "e \<noteq> []"
    and "map_of (rev kvs) (lit ''subject'') = Some (JString s)" and "s \<noteq> []"
    and "map_of (rev kvs) (lit ''body'') = Some (JString b)" and "b \<noteq> []"
  shows "snd (getEmailDataFromAI cfg w message) =
           Inr (Some \<lparr>to = JString e, subject = JString s, body = JString b\<rparr>)"
proof -
  have c: "choice \<noteq> JNull" "msg \<noteq> JNull"
    using assms(3,4) by auto
  have t: "content_text data = Inr (Some (trim content))"
    using assms(2,3,4) c
    by (cases choice; cases msg) (simp_all add: content_text_def opt_chain_def)
  have r: "regex_match (trim content) = Some (LBRACE # mid @ [RBRACE])"
    unfolding assms(5) using assms(6,7) by (rule regex_match_trim)
  have n: "trim content \<noteq> []"
    using r by auto
  have "parse_email (trim content) = Inr \<lparr>to = JString e, subject = JString s, body = JString b\<rparr>"
    unfolding parse_email_Inr_iff using r assms(8-14) by simp
  then have "getEmailDataFromAI_try cfg w message
               = Inr \<lparr>to = JString e, subject = JString s, body = JString b\<rparr>"
    unfolding try_Inr_iff using assms(1) t n by blast
  then show ?thesis
    by (simp add: getEmailDataFromAI_snd)
qed

theorem extract_well_formed_witness:
  "snd (getEmailDataFromAI example_config (example_world (wrapped_pre @ bob_json @ wrapped_post))
          (msg_text example_message)) = Inr (Some bob_email)"
proof -
  let ?content = "wrapped_pre @ bob_json @ wrapped_post"
  let ?msg = "JObject [(lit ''role'', JString (lit ''assistant'')), (lit ''content'', JString ?content)]"
  let ?choice = "JObject [(lit ''message'', ?msg)]"
  let ?mid = "butlast (tl bob_json)"
  let ?kvs = "[(lit ''email'', JString (lit ''bob@example.com'')),
               (lit ''subject'', JString (lit ''Meeting update'')),
               (lit ''body'', JString (lit ''The meeting moved to 3pm.''))]"
  have b: "LBRACE # ?mid @ [RBRACE] = bob_json"
    by (simp add: bob_json_def lit_def)
  have 1: "fetch (example_world ?content) (completion_request example_config (msg_text example_message))
             = Inr (Inr (example_response ?content))"
    by (simp add: example_world_def)
  have 2: "get_prop (example_response ?content) Choices = Inr (Some (JArray (?choice # [])))"
    by (simp add: example_response_def lit_def)
  have 3: "get_prop ?choice Message = Inr (Some ?msg)"
    by simp
  have 4: "get_prop ?msg Content = Inr (Some (JString ?content))"
    by (simp add: lit_def)
  have 5: "?content = wrapped_pre @ LBRACE # ?mid @ RBRACE # wrapped_post"
    using b by (metis append_Cons append_Nil append_assoc)
  have 6: "LBRACE \<notin> set wrapped_pre"
    by (simp add: wrapped_pre_def lit_def)
  have 7: "RBRACE \<notin> set wrapped_post"
    by (simp add: wrapped_post_def lit_def)
  have 8: "JSON_parse (LBRACE # ?mid @ [RBRACE]) = Some (JObject ?kvs)"
    unfolding b by (rule JSON_parse_bob)
  have 9: "map_of (rev ?kvs) (lit ''email'') = Some (JString (lit ''bob@example.com''))"
    "map_of (rev ?kvs) (lit ''subject'') = Some (JString (lit ''Meeting update''))"
    "map_of (rev ?kvs) (lit ''body'') = Some (JString (lit ''The meeting moved to 3pm.''))"
    by (simp_all add: lit_def)
  have 10: "lit ''bob@example.com'' \<noteq> []" "lit ''Meeting update'' \<noteq> []"
    "lit ''The meeting moved to 3pm.'' \<noteq> []"
    by (simp_all add: lit_def)
  show ?thesis
    using extract_well_formed [OF 1 2 3 4 5 6 7 8 9(1) 10(1) 9(2) 10(2) 9(3) 10(3)]
    by (simp only: bob_email_def)
qed

text \<open>The claim as stated fails when the prose has a brace of its own: the match then
  starts at the brace of the prose, the span does not parse, and the result is \<open>null\<close>.\<close>

theorem extract_braced_prose_counterexample:
  "braced_prose_answer = lit ''Here is the {JSON} you asked for: '' @ bob_json
   \<and> JSON_parse bob_json =
       Some (JObject [(lit ''email'', JString (lit ''bob@example.com'')),
                      (lit ''subject'', JString (lit ''Meeting update'')),
                      (lit ''body'', JString (lit ''The meeting moved to 3pm.''))])
   \<and> snd (getEmailDataFromAI example_config (example_world braced_prose_answer)
            (msg_text example_message)) = Inr None"
proof -
  have "braced_prose_answer \<noteq> []"
    by (simp add: braced_prose_answer_def lit_def)
  then have "snd (getEmailDataFromAI example_config (example_world braced_prose_answer)
            (msg_text example_message)) = Inr None"
    by (simp add: extract_example trim_braced parse_email_braced)
  then show ?thesis
    by (simp add: JSON_parse_bob braced_prose_answer_def)
qed

section \<open>When the extraction gives nothing (C2)\<close>

text \<open>
  C2. \<open>getEmailDataFromAI\<close> never throws, and it returns \<open>null\<close> exactly when one of
  its checks fails: the request or the decoding of the response body rejects; the
  response has no text content (reading it throws, or it is \<open>undefined\<close>, \<open>null\<close> or
  empty after trimming); the text has no brace-delimited substring; that substring does
  not parse as JSON; or one of \<open>email\<close>, \<open>subject\<close>, \<open>body\<close> fails the test
  \<open>!parsed.key\<close>, which is \<open>falsy\<close> of the member read: the key is missing, or its
  value is the empty string, \<open>null\<close>, \<open>false\<close> or zero.
\<close>

theorem getEmailDataFromAI_None_iff:
  "(\<forall>e. snd (getEmailDataFromAI cfg w message) \<noteq> Inl e) \<and>
   (snd (getEmailDataFromAI cfg w message) = Inr None \<longleftrightarrow>
      (\<exists>e. fetch w (completion_request cfg message) = Inl e) \<or>
      (\<exists>e. fetch w (completion_request cfg message) = Inr (Inl e)) \<or>
      (\<exists>data. fetch w (completion_request cfg message) = Inr (Inr data) \<and>
         ((\<exists>e. content_text data = Inl e) \<or>
          content_text data = Inr None \<or>
          content_text data = Inr (Some []) \<or>
          (\<exists>text'. content_text data = Inr (Some text') \<and>
             (regex_match text' = None \<or>
              (\<exists>m. regex_match text' = Some m \<and>
                 (JSON_parse m = None \<or>
                  (\<exists>kvs. JSON_parse m = Some (JObject kvs) \<and>
                     (falsy (map_of (rev kvs) (lit ''email'')) \<or>
                      falsy (map_of (rev kvs) (lit ''subject'')) \<or>
                      falsy (map_of (rev kvs) (lit ''body'')))))))))))"
proof -
  have a: "\<forall>e. snd (getEmailDataFromAI cfg w message) \<noteq> Inl e"
    using getEmailDataFromAI_returns [of cfg w message] by auto
  have n: "snd (getEmailDataFromAI cfg w message) = Inr None
             \<longleftrightarrow> (\<exists>e. getEmailDataFromAI_try cfg w message = Inl e)"
    by (simp add: getEmailDataFromAI_snd split: sum.splits)
  have t: "(\<exists>e. getEmailDataFromAI_try cfg w message = Inl e) \<longleftrightarrow>
      (\<exists>e. fetch w (completion_request cfg message) = Inl e) \<or>
      (\<exists>e. fetch w (completion_request cfg message) = Inr (Inl e)) \<or>
      (\<exists>data. fetch w (completion_request cfg message) = Inr (Inr data) \<and>
         ((\<exists>e. content_text data = Inl e) \<or>
          content_text data = Inr None \<or>
          content_text data = Inr (Some []) \<or>
          (\<exists>text'. content_text data = Inr (Some text') \<and> (\<exists>e. parse_email text' = Inl e))))"
    by (auto simp: getEmailDataFromAI_try_def falsy_str_def template_def
        split: sum.splits option.splits)
  show ?thesis
    unfolding n t parse_email_Inl_iff using a by blast
qed

theorem getEmailDataFromAI_None_iff_witness:
  "snd (getEmailDataFromAI example_config (example_world prose_answer) (msg_text example_message))
     = Inr None"
proof -
  let ?w = "example_world prose_answer"
  have "fetch ?w (completion_request example_config (msg_text example_message))
          = Inr (Inr (example_response prose_answer))"
    by (simp add: example_world_def)
  moreover have "content_text (example_response prose_answer) = Inr (Some prose_answer)"
    by (simp add: content_text_example trim_def prose_answer_def lit_def js_whitespace_def)
  moreover have "regex_match prose_answer = None"
    by (simp add: prose_answer_def lit_def)
  ultimately show ?thesis
    using getEmailDataFromAI_None_iff [of example_config ?w "msg_text example_message"]
    by blast
qed

section \<open>The encoding of the envelope (C3)\<close>

text \<open>
  C3. For every envelope string, the encoding \<open>sendMail\<close> submits (base64 of the UTF-8
  bytes, then \<open>+\<close> replaced by \<open>-\<close>, \<open>/\<close> by \<open>_\<close>, and the trailing \<open>=\<close> removed)
  contains no \<open>+\<close>, no \<open>/\<close> and no \<open>=\<close>, and decoding it as base64url gives back
  exactly the bytes of the envelope.
\<close>

theorem encode_message_roundtrip:
  "0x2B \<notin> set (encode_message email) \<and> 0x2F \<notin> set (encode_message email)
   \<and> 0x3D \<notin> set (encode_message email)
   \<and> base64url_decode (encode_message email) = Some (utf8_encode email)"
  using unpadded_subset [of "utf8_encode email"] url_alphabet_set
  by (auto simp only: encode_message_unpadded decode_unpadded)

theorem encode_message_roundtrip_witness:
  "encode_message short_envelope = lit ''VG86IGJvYkBleGFtcGxlLmNvbQ0KDQrinIU''
   \<and> base64url_decode (lit ''VG86IGJvYkBleGFtcGxlLmNvbQ0KDQrinIU'') = Some (utf8_encode short_envelope)"
  using encode_message_roundtrip [of short_envelope]
  by (simp add: short_envelope_encoded)

section \<open>The mail envelope (C4)\<close>

text \<open>
  C4. For every email command the envelope \<open>sendMail\<close> builds is exactly these lines
  joined with CRLF: the From line with the configured sender address, the To line with
  the recipient, the Subject line with the subject, the plain-text content-type header,
  an empty line, and the body.
\<close>

theorem build_email_lines:
  assumes "userEmail cfg = Some sender"
    and "to d = JString recipient" and "subject d = JString subj" and "body d = JString content"
  shows \<open>build_email nts cfg d =
     Inr (lit ''From: "Email Bot" <'' @ sender @ lit ''>'' @ [0x0D, 0x0A]
          @ lit ''To: '' @ recipient @ [0x0D, 0x0A]
          @ lit ''Subject: '' @ subj @ [0x0D, 0x0A]
          @ lit ''Content-Type: text/plain; charset="UTF-8"'' @ [0x0D, 0x0A]
          @ [0x0D, 0x0A]
          @ content)\<close>
  using assms by (simp add: build_email_def template_def join_element_def)

theorem build_email_lines_witness:
  \<open>build_email example_number_text example_config bob_email =
     Inr (lit ''From: "Email Bot" <bot@example.com>'' @ [0x0D, 0x0A]
          @ lit ''To: bob@example.com'' @ [0x0D, 0x0A]
          @ lit ''Subject: Meeting update'' @ [0x0D, 0x0A]
          @ lit ''Content-Type: text/plain; charset="UTF-8"'' @ [0x0D, 0x0A]
          @ [0x0D, 0x0A]
          @ lit ''The meeting moved to 3pm.'')\<close>
  using build_email_lines [of example_config "lit ''bot@example.com''" bob_email
      "lit ''bob@example.com''" "lit ''Meeting update''" "lit ''The meeting moved to 3pm.''"
      example_number_text]
  by (simp add: example_config_def bob_email_def lit_def)

section \<open>Failures of a send (C5)\<close>

text \<open>
  C5, as amended. Every error of a send is caught by \<open>sendMail\<close> at its own layer,
  logged, and thrown again unchanged: the rejection of the token request, the error
  \<open>sendMail\<close> raises itself when the response carries no token, the TypeError of a
  field that cannot be converted to text, and the rejection of the provider's call. The
  caller sees the original error as an exception; \<open>sendMail\<close> returns no failure
  value, for whatever it returns is the provider's answer to an accepted send. The
  message handler is what catches the error: it returns normally.
\<close>

theorem sendMail_rethrows:
  "(getAccessToken w = Inl e \<longrightarrow>
      sendMail nts cfg w d =
        ([GetAccessToken, ConsoleError [LString (lit ''Error sending email:''), LError e]], Inl e))
   \<and> (getAccessToken w = Inr tok \<and> falsy_str tok \<longrightarrow>
      sendMail nts cfg w d =
        ([GetAccessToken,
          ConsoleError [LString (lit ''Error sending email:''),
                        LError (Error (lit ''Failed to get access token''))]],
         Inl (Error (lit ''Failed to get access token''))))
   \<and> (getAccessToken w = Inr tok \<and> \<not> falsy_str tok \<and> build_email nts cfg d = Inl e \<longrightarrow>
      sendMail nts cfg w d =
        ([GetAccessToken, ConsoleError [LString (lit ''Error sending email:''), LError e]], Inl e))
   \<and> (getAccessToken w = Inr tok \<and> \<not> falsy_str tok \<and> build_email nts cfg d = Inr email \<and>
        messages_send w (lit ''me'') (encode_message email) = Inl e \<longrightarrow>
      sendMail nts cfg w d =
        ([GetAccessToken, MessagesSend (lit ''me'') (encode_message email),
          ConsoleError [LString (lit ''Error sending email:''), LError e]], Inl e))
   \<and> (snd (sendMail nts cfg w d) = Inr res \<longrightarrow>
        (\<exists>tok' email'. getAccessToken w = Inr tok' \<and> \<not> falsy_str tok' \<and>
           build_email nts cfg d = Inr email' \<and>
           messages_send w (lit ''me'') (encode_message email') = Inr res))
   \<and> (snd (getEmailDataFromAI cfg w (msg_text msg)) = Inr (Some d) \<and>
        snd (sendMail nts cfg w d) = Inl e \<longrightarrow>
      snd (on_message nts cfg w msg) = Inr ())"
proof (intro conjI impI)
  assume "getAccessToken w = Inl e"
  then show "sendMail nts cfg w d =
      ([GetAccessToken, ConsoleError [LString (lit ''Error sending email:''), LError e]], Inl e)"
    by (simp add: sendMail_def sendMail_try_def)
next
  assume "getAccessToken w = Inr tok \<and> falsy_str tok"
  then show "sendMail nts cfg w d =
      ([GetAccessToken,
        ConsoleError [LString (lit ''Error sending email:''),
                      LError (Error (lit ''Failed to get access token''))]],
       Inl (Error (lit ''Failed to get access token'')))"
    by (simp add: sendMail_def sendMail_try_def)
next
  assume "getAccessToken w = Inr tok \<and> \<not> falsy_str tok \<and> build_email nts cfg d = Inl e"
  then show "sendMail nts cfg w d =
      ([GetAccessToken, ConsoleError [LString (lit ''Error sending email:''), LError e]], Inl e)"
    by (simp add: sendMail_def sendMail_try_def)
next
  assume "getAccessToken w = Inr tok \<and> \<not> falsy_str tok \<and> build_email nts cfg d = Inr email \<and>
        messages_send w (lit ''me'') (encode_message email) = Inl e"
  then show "sendMail nts cfg w d =
      ([GetAccessToken, MessagesSend (lit ''me'') (encode_message email),
        ConsoleError [LString (lit ''Error sending email:''), LError e]], Inl e)"
    by (simp add: sendMail_def sendMail_try_def Let_def)
next
  assume "snd (sendMail nts cfg w d) = Inr res"
  then show "\<exists>tok' email'. getAccessToken w = Inr tok' \<and> \<not> falsy_str tok' \<and>
           build_email nts cfg d = Inr email' \<and>
           messages_send w (lit ''me'') (encode_message email') = Inr res"
    by (auto simp: sendMail_outcome split: sum.splits if_splits)
next
  assume a: "snd (getEmailDataFromAI cfg w (msg_text msg)) = Inr (Some d) \<and>
        snd (sendMail nts cfg w d) = Inl e"
  obtain evs where g: "getEmailDataFromAI cfg w (msg_text msg) = (evs, Inr (Some d))"
    using a by (cases "getEmailDataFromAI cfg w (msg_text msg)") auto
  obtain evs' where s: "sendMail nts cfg w d = (evs', Inl e)"
    using a by (cases "sendMail nts cfg w d") auto
  show "snd (on_message nts cfg w msg) = Inr ()"
    using g s by (simp add: on_message_def Let_def)
qed

theorem sendMail_rethrows_witness:
  "snd (sendMail example_number_text example_config (rejecting_token_world bob_json) bob_email)
     = Inl (Rejection (lit ''invalid_grant''))
   \<and> snd (sendMail example_number_text example_config (no_token_world bob_json) bob_email)
     = Inl (Error (lit ''Failed to get access token''))
   \<and> snd (sendMail example_number_text example_config (example_world bob_json) unprintable_email)
     = Inl TypeError
   \<and> sendMail example_number_text example_config (failing_send_world bob_json) bob_email
     = ([GetAccessToken, MessagesSend (lit ''me'') (encode_message bob_envelope),
         ConsoleError [LString (lit ''Error sending email:''),
                       LError (Rejection (lit ''quota exceeded''))]],
        Inl (Rejection (lit ''quota exceeded'')))
   \<and> messages_send (example_world bob_json) (lit ''me'') (encode_message bob_envelope)
     = Inr (GmailMessage (lit ''18c0ffee''))
   \<and> snd (on_message example_number_text example_config (failing_send_world bob_json) example_message)
     = Inr ()"
proof -
  let ?nts = example_number_text and ?cfg = example_config
  have tok: "\<not> falsy_str (Some (lit ''ya29.token''))" and none: "falsy_str None"
    by (simp_all add: falsy_str_def lit_def)
  have 1: "getAccessToken (rejecting_token_world bob_json) = Inl (Rejection (lit ''invalid_grant''))"
    by (simp add: rejecting_token_world_def)
  have 2: "getAccessToken (no_token_world bob_json) = Inr None \<and> falsy_str None"
    using none by (simp add: no_token_world_def)
  have 3: "getAccessToken (example_world bob_json) = Inr (Some (lit ''ya29.token'')) \<and>
      \<not> falsy_str (Some (lit ''ya29.token'')) \<and> build_email ?nts ?cfg unprintable_email = Inl TypeError"
    using tok by (simp add: example_world_def build_email_def unprintable_email_def)
  have 4: "getAccessToken (failing_send_world bob_json) = Inr (Some (lit ''ya29.token'')) \<and>
      \<not> falsy_str (Some (lit ''ya29.token'')) \<and> build_email ?nts ?cfg bob_email = Inr bob_envelope \<and>
      messages_send (failing_send_world bob_json) (lit ''me'') (encode_message bob_envelope)
        = Inl (Rejection (lit ''quota exceeded''))"
    using tok by (simp add: failing_send_world_def build_email_bob)
  have 5: "snd (sendMail ?nts ?cfg (example_world bob_json) bob_email) = Inr (GmailMessage (lit ''18c0ffee''))"
    by (simp add: sendMail_example)
  have 6: "snd (getEmailDataFromAI ?cfg (failing_send_world bob_json) (msg_text example_message))
      = Inr (Some bob_email)"
    by (simp add: extract_bob_failing)
  have a: "snd (sendMail ?nts ?cfg (rejecting_token_world bob_json) bob_email)
      = Inl (Rejection (lit ''invalid_grant''))"
    using sendMail_rethrows [of "rejecting_token_world bob_json" "Rejection (lit ''invalid_grant'')"
        ?nts ?cfg bob_email] 1 by simp
  have b: "snd (sendMail ?nts ?cfg (no_token_world bob_json) bob_email)
      = Inl (Error (lit ''Failed to get access token''))"
    using sendMail_rethrows [of "no_token_world bob_json" _ ?nts ?cfg bob_email None] 2 by simp
  have c: "snd (sendMail ?nts ?cfg (example_world bob_json) unprintable_email) = Inl TypeError"
    using sendMail_rethrows [of "example_world bob_json" TypeError ?nts ?cfg unprintable_email
        "Some (lit ''ya29.token'')"] 3 by simp
  have d: "sendMail ?nts ?cfg (failing_send_world bob_json) bob_email
     = ([GetAccessToken, MessagesSend (lit ''me'') (encode_message bob_envelope),
         ConsoleError [LString (lit ''Error sending email:''),
                       LError (Rejection (lit ''quota exceeded''))]],
        Inl (Rejection (lit ''quota exceeded'')))"
    using sendMail_rethrows [of "failing_send_world bob_json" "Rejection (lit ''quota exceeded'')"
        ?nts ?cfg bob_email "Some (lit ''ya29.token'')" bob_envelope] 4 by blast
  have e: "messages_send (example_world bob_json) (lit ''me'') (encode_message bob_envelope)
     = Inr (GmailMessage (lit ''18c0ffee''))"
    using sendMail_rethrows [of "example_world bob_json" _ ?nts ?cfg bob_email _ _
        "GmailMessage (lit ''18c0ffee'')"] 5
    by (auto simp: build_email_bob)
  have f: "snd (on_message ?nts ?cfg (failing_send_world bob_json) example_message) = Inr ()"
    using sendMail_rethrows [of "failing_send_world bob_json" "Rejection (lit ''quota exceeded'')"
        ?nts ?cfg bob_email _ _ _ example_message] 6 d by simp
  from a b c d e f show ?thesis by blast
qed

text \<open>The claim as stated fails: with a provider that rejects the send, \<open>sendMail\<close>
  does not return; it throws the provider's error.\<close>

theorem sendMail_throws_counterexample:
  "snd (sendMail example_number_text example_config (failing_send_world bob_json) bob_email)
     = Inl (Rejection (lit ''quota exceeded''))"
  by (simp add: sendMail_outcome build_email_bob failing_send_world_def falsy_str_def lit_def)

section \<open>The handler when the send fails (C6)\<close>

text \<open>
  C6. When the extraction gives a command and the send fails with any error, the
  message handler returns normally (no exception leaves it) and the user is sent exactly
  one message, the fixed failure text, whatever the error was.
\<close>

theorem dispatch_failure_acknowledged:
  assumes "snd (getEmailDataFromAI cfg w (msg_text msg)) = Inr (Some d)"
    and "snd (sendMail nts cfg w d) = Inl err"
  shows "snd (on_message nts cfg w msg) = Inr ()
         \<and> sent_messages (fst (on_message nts cfg w msg)) =
             [(chat_id msg, 0x274C # lit '' Failed to send email. Try again later.'')]"
proof -
  obtain evs where g: "getEmailDataFromAI cfg w (msg_text msg) = (evs, Inr (Some d))"
    using assms(1) by (cases "getEmailDataFromAI cfg w (msg_text msg)") auto
  obtain evs' where s: "sendMail nts cfg w d = (evs', Inl err)"
    using assms(2) by (cases "sendMail nts cfg w d") auto
  have "sent_messages evs = []" "sent_messages evs' = []"
    using extraction_no_messages [of cfg w "msg_text msg"] sendMail_no_messages [of nts cfg w d] g s
    by simp_all
  then show ?thesis
    using g s by (simp add: on_message_def Let_def sent_messages_append send_failed_text_def)
qed

theorem dispatch_failure_acknowledged_witness:
  "snd (on_message example_number_text example_config (failing_send_world bob_json) example_message) = Inr ()
   \<and> sent_messages (fst (on_message example_number_text example_config (failing_send_world bob_json) example_message))
       = [(42, 0x274C # lit '' Failed to send email. Try again later.'')]"
proof -
  have a: "snd (getEmailDataFromAI example_config (failing_send_world bob_json) (msg_text example_message))
             = Inr (Some bob_email)"
    by (simp add: extract_bob_failing)
  have b: "snd (sendMail example_number_text example_config (failing_send_world bob_json) bob_email)
             = Inl (Rejection (lit ''quota exceeded''))"
    by (simp add: sendMail_outcome build_email_bob failing_send_world_def falsy_str_def lit_def)
  have c: "chat_id example_message = 42"
    by (simp add: example_message_def)
  show ?thesis
    using dispatch_failure_acknowledged [OF a b] c by simp
qed

section \<open>The handler when the extraction fails (C7)\<close>

text \<open>
  C7. When \<open>getEmailDataFromAI\<close> returns \<open>null\<close>, the handler sends the
  extraction-failure text and stops: \<open>sendMail\<close> is not called, so the trace has no
  request for an access token and no send.
\<close>

theorem extraction_failure_skips_dispatch:
  assumes "snd (getEmailDataFromAI cfg w (msg_text msg)) = Inr None"
  shows "on_message nts cfg w msg =
           (ConsoleLog [LString (lit ''Received message:''), log_text (msg_text msg)]
              # fst (getEmailDataFromAI cfg w (msg_text msg))
              @ [BotSendMessage (chat_id msg) extraction_failed_text],
            Inr ())
         \<and> sent_messages (fst (on_message nts cfg w msg)) = [(chat_id msg, extraction_failed_text)]
         \<and> filter dispatch_event (fst (on_message nts cfg w msg)) = []"
proof -
  obtain evs where g: "getEmailDataFromAI cfg w (msg_text msg) = (evs, Inr None)"
    using assms by (cases "getEmailDataFromAI cfg w (msg_text msg)") auto
  have m: "sent_messages evs = []" and d: "filter dispatch_event evs = []"
    using extraction_no_messages [of cfg w "msg_text msg"]
      extraction_no_dispatch [of cfg w "msg_text msg"] g by simp_all
  show ?thesis
    using g m d by (simp add: on_message_def Let_def sent_messages_append)
qed

theorem extraction_failure_skips_dispatch_witness:
  "sent_messages (fst (on_message example_number_text example_config (example_world prose_answer) example_message))
       = [(42, extraction_failed_text)]
   \<and> filter dispatch_event (fst (on_message example_number_text example_config (example_world prose_answer) example_message)) = []"
proof -
  have a: "snd (getEmailDataFromAI example_config (example_world prose_answer) (msg_text example_message)) = Inr None"
    by (rule extract_prose)
  have c: "chat_id example_message = 42"
    by (simp add: example_message_def)
  from extraction_failure_skips_dispatch [OF a, of example_number_text]
  have "sent_messages (fst (on_message example_number_text example_config (example_world prose_answer) example_message))
          = [(chat_id example_message, extraction_failed_text)]
        \<and> filter dispatch_event (fst (on_message example_number_text example_config (example_world prose_answer) example_message)) = []"
    by (rule conjunct2)
  then show ?thesis
    by (simp only: c)
qed

section \<open>What the extractor checks of the recipient (C8)\<close>

text \<open>
  C8, as amended. Every command \<open>getEmailDataFromAI\<close> returns carries the \<open>email\<close>,
  \<open>subject\<close> and \<open>body\<close> members of the parsed object unchanged, and each of them is
  truthy (a string among them is not empty). Nothing checks that the recipient has the
  syntax of an email address.
\<close>

theorem extracted_fields_unvalidated:
  assumes "snd (getEmailDataFromAI cfg w message) = Inr (Some d)"
  shows "\<exists>data text' m kvs.
           fetch w (completion_request cfg message) = Inr (Inr data) \<and>
           content_text data = Inr (Some text') \<and> regex_match text' = Some m \<and>
           JSON_parse m = Some (JObject kvs) \<and>
           map_of (rev kvs) (lit ''email'') = Some (to d) \<and>
           map_of (rev kvs) (lit ''subject'') = Some (subject d) \<and>
           map_of (rev kvs) (lit ''body'') = Some (body d) \<and>
           \<not> falsy (Some (to d)) \<and> \<not> falsy (Some (subject d)) \<and> \<not> falsy (Some (body d))"
proof -
  from assms have "getEmailDataFromAI_try cfg w message = Inr d"
    by (simp add: getEmailDataFromAI_snd split: sum.splits)
  then obtain data text' where
    "fetch w (completion_request cfg message) = Inr (Inr data)"
    "content_text data = Inr (Some text')" "parse_email text' = Inr d"
    unfolding try_Inr_iff by blast
  then show ?thesis
    unfolding parse_email_Inr_iff by blast
qed

theorem extracted_fields_unvalidated_witness:
  "\<not> falsy (Some (JString (lit ''tomorrow at noon''))) \<and> \<not> falsy (Some (JString (lit ''Lunch'')))
   \<and> \<not> falsy (Some (JString (lit ''See you there.'')))"
  using extracted_fields_unvalidated [OF extract_unvalidated]
  by (elim exE conjE) simp

text \<open>The claim as stated fails: a recipient without an \<open>@\<close> is returned as it is.\<close>

theorem recipient_not_validated_counterexample:
  "snd (getEmailDataFromAI example_config (example_world unvalidated_answer) (msg_text example_message))
     = Inr (Some \<lparr>to = JString (lit ''tomorrow at noon''), subject = JString (lit ''Lunch''),
                  body = JString (lit ''See you there.'')\<rparr>)
   \<and> 0x40 \<notin> set (lit ''tomorrow at noon'')"
  by (simp add: extract_unvalidated) (simp add: lit_def)

section \<open>The two modes of the process (C9)\<close>

text \<open>
  C9. \<open>main\<close> selects one of two modes by the refresh token. With a refresh token
  configured the bot starts polling and, whatever reaches the process afterwards, no
  event of the consent flow ever happens. Without one, the authorization URL is
  generated and printed once, the callback server listens once, and, whatever reaches
  the process afterwards, no event of the message pipeline ever happens.
\<close>

theorem main_selects_one_mode:
  "(\<not> falsy_str (refreshToken cfg) \<longrightarrow>
      snd (main (initial_credentials cfg)) = RunPipeline \<and>
      BotStartPolling \<in> set (run_main nts cfg inputs) \<and>
      filter consent_event (run_main nts cfg inputs) = [])
   \<and> (falsy_str (refreshToken cfg) \<longrightarrow>
      snd (main (initial_credentials cfg)) = RunConsentFlow \<and>
      count_list (run_main nts cfg inputs) GenerateAuthUrl = 1 \<and>
      count_list (run_main nts cfg inputs) (AppListen 3000) = 1 \<and>
      filter pipeline_event (run_main nts cfg inputs) = [])"
proof (intro conjI impI)
  assume t: "\<not> falsy_str (refreshToken cfg)"
  then have m: "main (initial_credentials cfg) =
      (ConsoleLog [LString (0x2705 # lit '' Refresh token available, starting Telegram bot...'')]
         # startTelegramBot, RunPipeline)"
    by (simp add: main_def initial_refresh_token)
  show "snd (main (initial_credentials cfg)) = RunPipeline"
    by (simp add: m)
  show "BotStartPolling \<in> set (run_main nts cfg inputs)"
    by (simp add: run_main_def m startTelegramBot_def)
  have "filter consent_event (concat (map (react nts cfg RunPipeline) inputs)) = []"
    by (rule filter_concat_empty) (rule react_pipeline_no_consent)
  then show "filter consent_event (run_main nts cfg inputs) = []"
    by (simp add: run_main_def m startTelegramBot_def)
next
  assume f: "falsy_str (refreshToken cfg)"
  then have m: "main (initial_credentials cfg) =
      ([GenerateAuthUrl,
        ConsoleLog [LString (lit ''Visit this URL to authorize the app:\<newline>''), LAuthUrl],
        AppGet (lit ''/oauth2callback''),
        AppListen 3000,
        ConsoleLog [LString (lit ''OAuth server listening on http://localhost:3000'')]],
       RunConsentFlow)"
    by (simp add: main_def initial_refresh_token)
  show "snd (main (initial_credentials cfg)) = RunConsentFlow"
    by (simp add: m)
  have n: "GenerateAuthUrl \<notin> set (concat (map (react nts cfg RunConsentFlow) inputs))"
    "AppListen 3000 \<notin> set (concat (map (react nts cfg RunConsentFlow) inputs))"
    using react_consent_no_auth_url by auto
  then have c: "count_list (concat (map (react nts cfg RunConsentFlow) inputs)) GenerateAuthUrl = 0"
    "count_list (concat (map (react nts cfg RunConsentFlow) inputs)) (AppListen 3000) = 0"
    by (simp_all add: count_list_0_iff)
  show "count_list (run_main nts cfg inputs) GenerateAuthUrl = 1"
    using c(1) by (simp add: run_main_def m)
  show "count_list (run_main nts cfg inputs) (AppListen 3000) = 1"
    using c(2) by (simp add: run_main_def m)
  have "filter pipeline_event (concat (map (react nts cfg RunConsentFlow) inputs)) = []"
    by (rule filter_concat_empty) (rule react_consent_no_pipeline)
  then show "filter pipeline_event (run_main nts cfg inputs) = []"
    by (simp add: run_main_def m)
qed

theorem main_selects_one_mode_witness:
  "snd (main (initial_credentials example_config)) = RunPipeline
   \<and> filter consent_event (run_main example_number_text example_config example_inputs) = []
   \<and> snd (main (initial_credentials (example_config\<lparr>refreshToken := None\<rparr>))) = RunConsentFlow
   \<and> count_list (run_main example_number_text (example_config\<lparr>refreshToken := None\<rparr>) example_inputs)
        GenerateAuthUrl = 1
   \<and> filter pipeline_event
        (run_main example_number_text (example_config\<lparr>refreshToken := None\<rparr>) example_inputs) = []"
proof -
  have a: "\<not> falsy_str (refreshToken example_config)"
    by (simp add: example_config_def falsy_str_def lit_def)
  have b: "falsy_str (refreshToken (example_config\<lparr>refreshToken := None\<rparr>))"
    by (simp add: falsy_str_def)
  show ?thesis
    using main_selects_one_mode [of example_config example_number_text example_inputs] a
      main_selects_one_mode [of "example_config\<lparr>refreshToken := None\<rparr>" example_number_text
        example_inputs] b
    by blast
qed

section \<open>The span of the greedy match (C10)\<close>

text \<open>
  C10, as amended. The candidate substring is the greedy match: whenever a closing brace
  follows the first opening brace of the text, it runs from that first opening brace to
  the last closing brace, and otherwise there is no candidate. Consequently, when the
  first opening brace of the text opens a well-formed JSON object and a closing brace
  comes later, as with two JSON fragments, the candidate is the object together with
  what follows it up to that last closing brace, it does not parse, and
  \<open>getEmailDataFromAI\<close> returns \<open>null\<close>. A later opening brace that no closing brace
  follows does not widen the span: the candidate is then the object itself, and the
  result is the one of the object alone.
\<close>

theorem greedy_span:
  "(regex_match text' = Some m \<longleftrightarrow>
      (\<exists>pre mid post. text' = pre @ LBRACE # mid @ RBRACE # post \<and> LBRACE \<notin> set pre \<and>
         RBRACE \<notin> set post \<and> m = LBRACE # mid @ [RBRACE]))
   \<and> (fetch w (completion_request cfg message) = Inr (Inr data) \<and>
        content_text data = Inr (Some (before @ obj @ after)) \<and>
        obj = LBRACE # inner @ [RBRACE] \<and> JSON_parse obj = Some (JObject kvs) \<and>
        LBRACE \<notin> set before \<and> RBRACE \<in> set after
      \<longrightarrow> (\<exists>p. regex_match (before @ obj @ after) = Some (obj @ p @ [RBRACE]) \<and>
                JSON_parse (obj @ p @ [RBRACE]) = None) \<and>
          snd (getEmailDataFromAI cfg w message) = Inr None)
   \<and> (fetch w (completion_request cfg message) = Inr (Inr data) \<and>
        content_text data = Inr (Some (before @ obj @ after)) \<and>
        obj = LBRACE # inner @ [RBRACE] \<and> LBRACE \<notin> set before \<and> RBRACE \<notin> set after
      \<longrightarrow> regex_match (before @ obj @ after) = Some obj \<and>
          snd (getEmailDataFromAI cfg w message) =
            (case parse_email obj of Inl e \<Rightarrow> Inr None | Inr d \<Rightarrow> Inr (Some d)))"
proof (intro conjI impI)
  show "regex_match text' = Some m \<longleftrightarrow>
      (\<exists>pre mid post. text' = pre @ LBRACE # mid @ RBRACE # post \<and> LBRACE \<notin> set pre \<and>
         RBRACE \<notin> set post \<and> m = LBRACE # mid @ [RBRACE])"
    by (rule regex_match_iff)
next
  assume a: "fetch w (completion_request cfg message) = Inr (Inr data) \<and>
        content_text data = Inr (Some (before @ obj @ after)) \<and>
        obj = LBRACE # inner @ [RBRACE] \<and> JSON_parse obj = Some (JObject kvs) \<and>
        LBRACE \<notin> set before \<and> RBRACE \<in> set after"
  then obtain p q where pq: "after = p @ RBRACE # q" "RBRACE \<notin> set q"
    using split_list_last [of RBRACE after] by blast
  have t: "before @ obj @ after = before @ LBRACE # (inner @ RBRACE # p) @ RBRACE # q"
    using a pq by simp
  have m: "regex_match (before @ LBRACE # (inner @ RBRACE # p) @ RBRACE # q)
          = Some (LBRACE # (inner @ RBRACE # p) @ [RBRACE])"
    using a pq(2) by (intro regex_match_span) simp_all
  have eq: "obj @ p @ [RBRACE] = LBRACE # (inner @ RBRACE # p) @ [RBRACE]"
    using a by simp
  have r: "regex_match (before @ obj @ after) = Some (obj @ p @ [RBRACE])"
    unfolding t eq by (rule m)
  from a have jo: "JSON_parse obj = Some (JObject kvs)"
    by blast
  have j: "JSON_parse (obj @ p @ [RBRACE]) = None"
    by (rule JSON_parse_object_then_rbrace [OF jo])
  show "\<exists>p. regex_match (before @ obj @ after) = Some (obj @ p @ [RBRACE]) \<and>
                JSON_parse (obj @ p @ [RBRACE]) = None"
    using r j by blast
  have n: "before @ obj @ after \<noteq> []"
    using a by simp
  have "parse_email (before @ obj @ after) = Inl SyntaxError"
    using r j by (simp add: parse_email_def)
  moreover from a have "fetch w (completion_request cfg message) = Inr (Inr data)"
    and "content_text data = Inr (Some (before @ obj @ after))"
    by blast+
  ultimately show "snd (getEmailDataFromAI cfg w message) = Inr None"
    using extract_content [of w cfg message data "before @ obj @ after"] n by simp
next
  assume a: "fetch w (completion_request cfg message) = Inr (Inr data) \<and>
        content_text data = Inr (Some (before @ obj @ after)) \<and>
        obj = LBRACE # inner @ [RBRACE] \<and> LBRACE \<notin> set before \<and> RBRACE \<notin> set after"
  have "regex_match (before @ LBRACE # inner @ RBRACE # after) = Some (LBRACE # inner @ [RBRACE])"
    using a by (intro regex_match_span) simp_all
  then show r: "regex_match (before @ obj @ after) = Some obj"
    using a by simp
  have "regex_match ([] @ LBRACE # inner @ RBRACE # []) = Some (LBRACE # inner @ [RBRACE])"
    by (intro regex_match_span) simp_all
  then have o: "regex_match obj = Some obj"
    using a by simp
  have e: "parse_email (before @ obj @ after) = parse_email obj"
    using r o by (simp add: parse_email_def)
  have n: "before @ obj @ after \<noteq> []"
    using a by simp
  from a have f: "fetch w (completion_request cfg message) = Inr (Inr data)"
    and c: "content_text data = Inr (Some (before @ obj @ after))"
    by blast+
  show "snd (getEmailDataFromAI cfg w message) =
            (case parse_email obj of Inl e \<Rightarrow> Inr None | Inr d \<Rightarrow> Inr (Some d))"
    using extract_content [OF f c n] by (simp only: e)
qed

theorem greedy_span_witness:
  "regex_match two_fragments = Some two_fragments
   \<and> snd (getEmailDataFromAI example_config (example_world two_fragments) (msg_text example_message))
       = Inr None
   \<and> regex_match (bob_json @ lone_brace_post) = Some bob_json
   \<and> snd (getEmailDataFromAI example_config (example_world (bob_json @ lone_brace_post))
            (msg_text example_message)) = Inr (Some bob_email)"
proof -
  let ?cfg = example_config and ?message = "msg_text example_message"
  have s: "\<exists>pre mid post. two_fragments = pre @ LBRACE # mid @ RBRACE # post \<and> LBRACE \<notin> set pre \<and>
         RBRACE \<notin> set post \<and> two_fragments = LBRACE # mid @ [RBRACE]"
    by (intro exI [of _ "[]"] exI [of _ "butlast (tl two_fragments)"])
      (simp add: two_fragments_def lit_def)
  have 1: "regex_match two_fragments = Some two_fragments"
    using greedy_span [of two_fragments two_fragments] s by blast
  have f: "\<And>c. fetch (example_world c) (completion_request ?cfg ?message)
          = Inr (Inr (example_response c))"
    by (simp add: example_world_def)
  have "content_text (example_response two_fragments) = Inr (Some two_fragments)"
    by (simp add: content_text_example trim_two_fragments)
  then have c2: "content_text (example_response two_fragments)
      = Inr (Some ([] @ first_fragment @ later_fragment))"
    by (simp only: two_fragments_parts append_Nil)
  have o2: "first_fragment = LBRACE # butlast (tl first_fragment) @ [RBRACE]"
    "LBRACE \<notin> set []" "RBRACE \<in> set later_fragment"
    by (simp_all add: first_fragment_def later_fragment_def lit_def)
  have 2: "snd (getEmailDataFromAI ?cfg (example_world two_fragments) ?message) = Inr None"
    using greedy_span [of _ _ "example_world two_fragments" ?cfg ?message
        "example_response two_fragments" "[]" first_fragment later_fragment
        "butlast (tl first_fragment)" "[(lit ''email'', JString (lit ''bob@example.com''))]"]
      f c2 o2 JSON_parse_first_fragment
    by blast
  have c3: "content_text (example_response (bob_json @ lone_brace_post))
      = Inr (Some ([] @ bob_json @ lone_brace_post))"
    by (simp add: content_text_example trim_lone_brace)
  have o3: "bob_json = LBRACE # butlast (tl bob_json) @ [RBRACE]"
    "LBRACE \<notin> set []" "RBRACE \<notin> set lone_brace_post"
    by (simp_all add: bob_json_def lone_brace_post_def lit_def)
  from greedy_span [of _ _ "example_world (bob_json @ lone_brace_post)" ?cfg ?message
        "example_response (bob_json @ lone_brace_post)" "[]" bob_json lone_brace_post
        "butlast (tl bob_json)"]
      f c3 o3
  have "regex_match ([] @ bob_json @ lone_brace_post) = Some bob_json \<and>
      snd (getEmailDataFromAI ?cfg (example_world (bob_json @ lone_brace_post)) ?message)
        = (case parse_email bob_json of Inl e \<Rightarrow> Inr None | Inr d \<Rightarrow> Inr (Some d))"
    by blast
  then have 3: "regex_match (bob_json @ lone_brace_post) = Some bob_json"
    and 4: "snd (getEmailDataFromAI ?cfg (example_world (bob_json @ lone_brace_post)) ?message)
        = Inr (Some bob_email)"
    by (simp_all add: parse_email_bob)
  from 1 2 3 4 show ?thesis by blast
qed

text \<open>The claim as stated fails for a later opening brace: after a well-formed object
  and prose with an opening brace that nothing closes, the span is the object and the
  command is extracted.\<close>

theorem lone_brace_counterexample:
  "JSON_parse bob_json =
       Some (JObject [(lit ''email'', JString (lit ''bob@example.com'')),
                      (lit ''subject'', JString (lit ''Meeting update'')),
                      (lit ''body'', JString (lit ''The meeting moved to 3pm.''))])
   \<and> lone_brace_post = lit '' and then {'' \<and> LBRACE \<in> set lone_brace_post
   \<and> snd (getEmailDataFromAI example_config (example_world (bob_json @ lone_brace_post))
            (msg_text example_message)) = Inr (Some bob_email)"
proof -
  have "bob_json @ lone_brace_post \<noteq> []"
    by (simp add: bob_json_nonempty)
  then have "snd (getEmailDataFromAI example_config (example_world (bob_json @ lone_brace_post))
            (msg_text example_message)) = Inr (Some bob_email)"
    by (simp add: extract_example trim_lone_brace parse_email_lone_brace)
  moreover have "LBRACE \<in> set lone_brace_post"
    by (simp add: lone_brace_post_def lit_def)
  ultimately show ?thesis
    by (simp add: JSON_parse_bob lone_brace_post_def)
qed

section \<open>Further properties of the handler, \<open>sendMail\<close> and the match\<close>

text \<open>
  The scenario of the spec: the text asks for a mail to \<open>bob@example.com\<close>, the model
  answers with the JSON object, the provider accepts. The handler asks for the
  completion, obtains the token, submits the encoded envelope of exactly that command
  once, and confirms to the chat, naming the recipient.
\<close>

theorem meeting_update_scenario:
  "on_message example_number_text example_config (example_world bob_json) example_message =
     ([ConsoleLog [LString (lit ''Received message:''),
                   LString (lit ''send an email to bob@example.com saying the meeting moved to 3pm'')],
       Fetch (completion_request example_config (msg_text example_message)),
       GetAccessToken,
       MessagesSend (lit ''me'') (encode_message bob_envelope),
       ConsoleLog [LString (lit ''Email sent! Message ID: '' @ lit ''18c0ffee'')],
       BotSendMessage 42 (0x2705 # lit '' Email sent to '' @ lit ''bob@example.com'' @ lit '' successfully!'')],
      Inr ())"
proof -
  have "sent_text example_number_text bob_email
          = Inr (0x2705 # lit '' Email sent to '' @ lit ''bob@example.com'' @ lit '' successfully!'')"
    by (simp add: sent_text_def bob_email_def)
  moreover have "chat_id example_message = 42"
    "log_text (msg_text example_message)
       = LString (lit ''send an email to bob@example.com saying the meeting moved to 3pm'')"
    by (simp_all add: example_message_def log_text_def)
  ultimately show ?thesis
    by (simp add: on_message_def Let_def extract_bob_example sendMail_example)
qed

text \<open>No exception leaves the message handler, whatever the outside world answers.\<close>

theorem on_message_never_throws: "snd (on_message nts cfg w msg) = Inr ()"
proof -
  obtain evs r where g: "getEmailDataFromAI cfg w (msg_text msg) = (evs, Inr r)"
    using getEmailDataFromAI_returns [of cfg w "msg_text msg"]
    by (cases "getEmailDataFromAI cfg w (msg_text msg)") auto
  show ?thesis
  proof (cases r)
    case None
    with g show ?thesis by (simp add: on_message_def Let_def)
  next
    case (Some d)
    obtain evs' r' where "sendMail nts cfg w d = (evs', r')"
      by (cases "sendMail nts cfg w d")
    with g Some show ?thesis
      by (cases r') (simp_all add: on_message_def Let_def split: sum.splits)
  qed
qed

text \<open>One call of \<open>sendMail\<close> asks for the access token once and submits at most one
  message: there is no retry.\<close>

theorem sendMail_single_attempt:
  "count_list (fst (sendMail nts cfg w d)) GetAccessToken = 1
   \<and> length (filter dispatch_event (fst (sendMail nts cfg w d))) \<le> 2"
  by (auto simp: sendMail_def sendMail_try_def Let_def split: sum.splits)

text \<open>When an opening brace comes before the object, the span starts there, and a
  well-formed object followed by a later closing brace may still be extracted from: as a
  member of a larger well-formed object it lies inside a span that parses.\<close>

theorem nested_object_parses:
  "JSON_parse nested_object = Some (JObject [(lit ''k'', JString (lit ''v''))])
   \<and> LBRACE \<in> set nested_pre \<and> RBRACE \<in> set nested_post
   \<and> snd (getEmailDataFromAI example_config (example_world (nested_pre @ nested_object @ nested_post))
            (msg_text example_message)) = Inr (Some bob_email)"
proof -
  have "nested_answer \<noteq> []"
    by (simp add: nested_answer_def nested_pre_def lit_def)
  then have "snd (getEmailDataFromAI example_config (example_world nested_answer)
            (msg_text example_message)) = Inr (Some bob_email)"
    by (simp add: extract_example trim_nested parse_email_nested)
  moreover have "LBRACE \<in> set nested_pre" "RBRACE \<in> set nested_post"
    by (simp_all add: nested_pre_def nested_post_def lit_def)
  ultimately show ?thesis
    by (simp add: JSON_parse_nested_object nested_answer_def)
qed

text \<open>The match finds no candidate exactly when no closing brace follows an opening
  brace anywhere in the text.\<close>

theorem regex_match_None_iff:
  "regex_match s = None \<longleftrightarrow> \<not> (\<exists>pre rest. s = pre @ LBRACE # rest \<and> RBRACE \<in> set rest)"
proof (induction s)
  case Nil
  then show ?case by simp
next
  case (Cons c cs)
  show ?case
  proof (cases "c = LBRACE \<and> RBRACE \<in> set cs")
    case True
    then have "match_at (c # cs) \<noteq> None"
      using dotstar_rbrace_None [of cs] by (auto split: option.splits)
    moreover from True have "\<exists>pre rest. c # cs = pre @ LBRACE # rest \<and> RBRACE \<in> set rest"
      by (intro exI [of _ "[]"] exI [of _ cs]) simp
    ultimately show ?thesis by (auto split: option.splits)
  next
    case False
    then have m: "match_at (c # cs) = None"
      using dotstar_rbrace_None [of cs] by (auto split: option.splits)
    have "(\<exists>pre rest. c # cs = pre @ LBRACE # rest \<and> RBRACE \<in> set rest)
          \<longleftrightarrow> (\<exists>pre rest. cs = pre @ LBRACE # rest \<and> RBRACE \<in> set rest)"
    proof
      assume "\<exists>pre rest. c # cs = pre @ LBRACE # rest \<and> RBRACE \<in> set rest"
      then obtain pre rest where e: "c # cs = pre @ LBRACE # rest" "RBRACE \<in> set rest" by blast
      show "\<exists>pre rest. cs = pre @ LBRACE # rest \<and> RBRACE \<in> set rest"
      proof (cases pre)
        case Nil
        with e False show ?thesis by simp
      next
        case (Cons p pre')
        with e show ?thesis by auto
      qed
    next
      assume "\<exists>pre rest. cs = pre @ LBRACE # rest \<and> RBRACE \<in> set rest"
      then obtain pre rest where "cs = pre @ LBRACE # rest" "RBRACE \<in> set rest" by blast
      then show "\<exists>pre rest. c # cs = pre @ LBRACE # rest \<and> RBRACE \<in> set rest"
        by (intro exI [of _ "c # pre"] exI [of _ rest]) simp
    qed
    with m Cons.IH show ?thesis by simp
  qed
qed

end
